theory Spec2Isabelle
  imports Main "HOL-Library.AList"
begin

section \<open>Data model of the FRP manager\<close>

text \<open>
  The manager (class \<open>FrpManager\<close>) keeps JavaScript objects of type \<open>FrpConfig\<close> in
  an array and mutates them in place (\<open>config.isRunning = true\<close>), also from the event
  handlers it registers on a child process. The objects are therefore kept in a store:
  an address is a reference to an object, \<open>heap\<close> maps every address to the record it
  holds, and \<open>configs\<close> is the array of references.

  The type variable \<open>'p\<close> is the type of the values \<open>TOML.parse\<close> returns; the parser
  belongs to a library and is a parameter of the model.
\<close>

type_synonym addr = nat
type_synonym pid = nat

record 'p FrpConfig =
  id' :: string
  name :: string
  config :: string
  isRunning :: bool
  autoStart :: bool
  parsedConfig :: "'p option"

text \<open>A thrown \<open>new Error(message)\<close>.\<close>

datatype error = Error string

text \<open>
  What \<open>mainWindow.webContents.send\<close> delivers: \<open>'frp-status-changed'\<close> with a copy of
  the configuration as it is at the moment of sending, and \<open>'frp-error'\<close> with
  \<open>{ configId, error }\<close>. The field \<open>mainWindow\<close> is set from the constructor's
  \<open>BrowserWindow\<close> argument and never assigned again, so the test \<open>if (this.mainWindow)\<close>
  always succeeds.
\<close>

datatype 'p message = StatusChanged "'p FrpConfig" | FrpError string string

text \<open>The events a child process raises on the listeners \<open>startFrp\<close> registers.\<close>

datatype proc_event =
    StdoutData string
  | StderrData string
  | Close "int option"
  | ProcError string

text \<open>
  The calls that leave the program are answered by the environment:
  \<^item> \<open>TOML_parse\<close>: \<open>TOML.parse\<close>, \<open>Inl\<close> the message of the error it throws;
  \<^item> \<open>toml_write_error id content\<close>: the message of the error with which
    \<open>fs.writeFile\<close> of the file \<open>id.toml\<close> is rejected, \<open>None\<close> when it succeeds;
  \<^item> \<open>persist_error records\<close>: the same for \<open>JSON.stringify\<close> of the array and
    \<open>fs.writeFile\<close> of \<open>configs.json\<close>;
  \<^item> \<open>json_value v\<close>: the value that \<open>JSON.parse\<close> reads back from the text that
    \<open>JSON.stringify\<close> writes for the parsed body \<open>v\<close>; it need not be \<open>v\<close> (an
    infinite number comes back as \<open>null\<close>, a date as a string);
  \<^item> \<open>spawn_error id\<close>: when the child process cannot be launched (binary missing,
    no permission), the message of the \<open>'error'\<close> event that it raises and the
    negative error number that the \<open>'close'\<close> event following it carries as exit
    code. \<open>spawn\<close> itself returns a \<open>ChildProcess\<close> in that case too, and the two
    events are raised later, in this order. \<open>spawn\<close> is taken never to throw.
  \<^item> \<open>mkdir_error\<close>, \<open>binary_accessible\<close>: \<open>fs.mkdir\<close>, and \<open>fs.access\<close> with
    \<open>fs.chmod\<close>, in \<open>init\<close>.
\<close>

record 'p env =
  TOML_parse :: "string \<Rightarrow> string + 'p"
  toml_write_error :: "string \<Rightarrow> string \<Rightarrow> string option"
  persist_error :: "'p FrpConfig list \<Rightarrow> string option"
  json_value :: "'p \<Rightarrow> 'p"
  spawn_error :: "string \<Rightarrow> (string \<times> int) option"
  mkdir_error :: "string option"
  binary_accessible :: bool

text \<open>
  The state: the fields of the class (\<open>processes\<close>, \<open>configs\<close>, \<open>architecture\<close>,
  \<open>binPath\<close>) and what the manager acts on: the objects, the content of
  \<open>configs.json\<close> as \<open>JSON.parse\<close> reads it (\<open>None\<close> when the file is missing or is
  not JSON; a write that fails is taken to leave the file as it was), the \<open>.toml\<close> files by
  configuration id, for each process spawned so far the configuration object its listeners
  have captured (process ids are given out in order, \<open>next_pid\<close> is the number of
  processes spawned), the processes sent a termination signal, the process events
  that are due, and the messages sent to the window, oldest first.

  The field \<open>configs\<close> is declared \<open>FrpConfig[]\<close>, and the file is represented as far
  as it has that type: a file whose JSON is not an array of configuration records
  would be assigned to the field all the same, and is not represented.

  To speak about the order of a message and a change of the array, \<open>listed\<close> keeps,
  for each message sent, the records that the array \<open>getConfigs\<close> returns held at the
  moment of sending.
\<close>

record 'p FrpManager =
  heap :: "addr \<Rightarrow> 'p FrpConfig"
  next_addr :: addr
  configs :: "addr list"
  processes :: "(string \<times> pid) list"
  architecture :: string
  binPath :: string
  persisted :: "'p FrpConfig list option"
  toml_files :: "(string \<times> string) list"
  next_pid :: pid
  spawned :: "pid \<Rightarrow> addr option"
  killed :: "pid list"
  pending :: "(pid \<times> proc_event) list"
  sent :: "'p message list"
  listed :: "'p FrpConfig list list"

section \<open>Message texts\<close>

text \<open>The fixed parts of the error messages, as UTF-8 bytes.\<close>

definition invalid_toml_prefix :: string where
  "invalid_toml_prefix =
     ''TOML '' @ [CHR 0xE9, CHR 0x85, CHR 0x8D, CHR 0xE7, CHR 0xBD, CHR 0xAE, CHR 0xE6,
       CHR 0xA0, CHR 0xBC, CHR 0xE5, CHR 0xBC, CHR 0x8F, CHR 0xE6, CHR 0x97, CHR 0xA0,
       CHR 0xE6, CHR 0x95, CHR 0x88] @ '': ''"

definition auto_start_failed_prefix :: string where
  "auto_start_failed_prefix =
     [CHR 0xE8, CHR 0x87, CHR 0xAA, CHR 0xE5, CHR 0x8A, CHR 0xA8, CHR 0xE5, CHR 0x90,
      CHR 0xAF, CHR 0xE5, CHR 0x8A, CHR 0xA8, CHR 0xE5, CHR 0xA4, CHR 0xB1, CHR 0xE8,
      CHR 0xB4, CHR 0xA5] @ '': ''"

definition exit_code_prefix :: string where
  "exit_code_prefix =
     [CHR 0xE8, CHR 0xBF, CHR 0x9B, CHR 0xE7, CHR 0xA8, CHR 0x8B, CHR 0xE9, CHR 0x80,
      CHR 0x80, CHR 0xE5, CHR 0x87, CHR 0xBA, CHR 0xEF, CHR 0xBC, CHR 0x8C, CHR 0xE9,
      CHR 0x80, CHR 0x80, CHR 0xE5, CHR 0x87, CHR 0xBA, CHR 0xE7, CHR 0xA0, CHR 0x81]
     @ '': ''"

definition binary_missing_prefix :: string where
  "binary_missing_prefix =
     [CHR 0xE6, CHR 0x89, CHR 0xBE, CHR 0xE4, CHR 0xB8, CHR 0x8D, CHR 0xE5, CHR 0x88,
      CHR 0xB0] @ '' frpc '' @
     [CHR 0xE4, CHR 0xBA, CHR 0x8C, CHR 0xE8, CHR 0xBF, CHR 0x9B, CHR 0xE5, CHR 0x88,
      CHR 0xB6, CHR 0xE6, CHR 0x96, CHR 0x87, CHR 0xE4, CHR 0xBB, CHR 0xB6, CHR 0xE6,
      CHR 0x88, CHR 0x96, CHR 0xE6, CHR 0x97, CHR 0xA0, CHR 0xE6, CHR 0xB3, CHR 0x95,
      CHR 0xE8, CHR 0xAE, CHR 0xBF, CHR 0xE9, CHR 0x97, CHR 0xAE, CHR 0xEF, CHR 0xBC,
      CHR 0x9A]"

text \<open>The decimal text of an exit code inside a template literal.\<close>

function decimal_nat :: "nat \<Rightarrow> string" where
  "decimal_nat n =
     (if n < 10 then [''0123456789'' ! n]
      else decimal_nat (n div 10) @ [''0123456789'' ! (n mod 10)])"
  by pat_completeness auto
termination
  by (relation "measure (\<lambda>n. n)") auto

definition decimal_int :: "int \<Rightarrow> string" where
  "decimal_int i = (if i < 0 then ''-'' @ decimal_nat (nat (- i)) else decimal_nat (nat i))"

section \<open>Construction and queries\<close>

definition detectArchitecture :: "string \<Rightarrow> string" where
  "detectArchitecture arch = (if arch = ''arm64'' then ''arm64'' else ''x64'')"

text \<open>
  \<open>getBinaryPath\<close>: the base directory is \<open>app.getAppPath()\<close> or
  \<open>process.resourcesPath\<close>, whichever the packaging mode selects.
\<close>

definition getBinaryPath :: "string \<Rightarrow> string \<Rightarrow> string" where
  "getBinaryPath base arch = base @ ''/assets/bin/darwin/'' @ arch @ ''/frpc''"

definition blank_config :: "'p FrpConfig" where
  "blank_config = \<lparr>id' = [], name = [], config = [], isRunning = False,
     autoStart = False, parsedConfig = None\<rparr>"

text \<open>
  The constructor, given \<open>os.arch()\<close>, the base directory and the content of
  \<open>configs.json\<close> at that time.
\<close>

definition constructor :: "string \<Rightarrow> string \<Rightarrow> 'p FrpConfig list option \<Rightarrow> 'p FrpManager" where
  "constructor os_arch base disk =
     \<lparr>heap = (\<lambda>_. blank_config), next_addr = 0, configs = [], processes = [],
      architecture = detectArchitecture os_arch,
      binPath = getBinaryPath base (detectArchitecture os_arch),
      persisted = disk, toml_files = [], next_pid = 0, spawned = (\<lambda>_. None), killed = [],
      pending = [], sent = [], listed = []\<rparr>"

text \<open>A query returns its value and the state it leaves.\<close>

definition getArchitecture :: "'p FrpManager \<Rightarrow> string \<times> 'p FrpManager" where
  "getArchitecture s = (architecture s, s)"

definition notifyStatusChange :: "'p FrpManager \<Rightarrow> addr \<Rightarrow> 'p FrpManager" where
  "notifyStatusChange s a =
     s\<lparr>sent := sent s @ [StatusChanged (heap s a)],
       listed := listed s @ [map (heap s) (configs s)]\<rparr>"

definition notifyError :: "'p FrpManager \<Rightarrow> string \<Rightarrow> string \<Rightarrow> 'p FrpManager" where
  "notifyError s configId err =
     s\<lparr>sent := sent s @ [FrpError configId err],
       listed := listed s @ [map (heap s) (configs s)]\<rparr>"

text \<open>\<open>Array.prototype.findIndex\<close>, with \<open>None\<close> for \<open>-1\<close>.\<close>

fun findIndex :: "('a \<Rightarrow> bool) \<Rightarrow> 'a list \<Rightarrow> nat option" where
  "findIndex P [] = None"
| "findIndex P (x # xs) = (if P x then Some 0 else map_option Suc (findIndex P xs))"

definition getConfig :: "'p FrpManager \<Rightarrow> string \<Rightarrow> addr option" where
  "getConfig s i = find (\<lambda>c. id' (heap s c) = i) (configs s)"

definition getConfigs :: "'p FrpManager \<Rightarrow> addr list" where
  "getConfigs s = configs s"

text \<open>The records an observer reads from the array \<open>getConfigs\<close> returns.\<close>

definition list_records :: "'p FrpManager \<Rightarrow> 'p FrpConfig list" where
  "list_records s = map (heap s) (getConfigs s)"

section \<open>Loading and saving configurations\<close>

text \<open>
  \<open>initConfigs\<close>: \<open>JSON.parse\<close> creates one new object for each record of the file;
  when reading or parsing fails the array is empty.
\<close>

fun load_objects :: "(addr \<Rightarrow> 'p FrpConfig) \<Rightarrow> addr \<Rightarrow> 'p FrpConfig list \<Rightarrow> (addr \<Rightarrow> 'p FrpConfig)" where
  "load_objects h n [] = h"
| "load_objects h n (c # cs) = load_objects (h(n := c)) (Suc n) cs"

definition initConfigs :: "'p FrpManager \<Rightarrow> 'p FrpManager" where
  "initConfigs s =
     (case persisted s of
        None \<Rightarrow> s\<lparr>configs := []\<rparr>
      | Some cs \<Rightarrow>
          s\<lparr>heap := load_objects (heap s) (next_addr s) cs,
            next_addr := next_addr s + length cs,
            configs := [next_addr s ..< next_addr s + length cs]\<rparr>)"

text \<open>A record as it is read back from the file it was written to.\<close>

definition as_written :: "'p env \<Rightarrow> 'p FrpConfig \<Rightarrow> 'p FrpConfig" where
  "as_written env c = c\<lparr>parsedConfig := map_option (json_value env) (parsedConfig c)\<rparr>"

text \<open>
  \<open>saveConfig\<close>: one \<open>try\<close> block holds the parse, the update of the array and the
  write, and its \<open>catch\<close> rethrows every error with the invalid-TOML prefix.
\<close>

definition saveConfig :: "'p env \<Rightarrow> 'p FrpManager \<Rightarrow> addr \<Rightarrow> (error + unit) \<times> 'p FrpManager" where
  "saveConfig env s a =
     (case TOML_parse env (config (heap s a)) of
        Inl msg \<Rightarrow> (Inl (Error (invalid_toml_prefix @ msg)), s)
      | Inr p \<Rightarrow>
          (let h = (heap s)(a := (heap s a)\<lparr>parsedConfig := Some p\<rparr>);
               cs = (case findIndex (\<lambda>c. id' (h c) = id' (h a)) (configs s) of
                       Some index \<Rightarrow> (configs s)[index := a]
                     | None \<Rightarrow> configs s @ [a]);
               s1 = s\<lparr>heap := h, configs := cs\<rparr>
           in case persist_error env (map h cs) of
                Some msg \<Rightarrow> (Inl (Error (invalid_toml_prefix @ msg)), s1)
              | None \<Rightarrow> (Inr (), s1\<lparr>persisted := Some (map (as_written env) (map h cs))\<rparr>)))"

section \<open>Starting and stopping processes\<close>

text \<open>
  \<open>startFrp\<close>: the only step that can reject is the write of the \<open>.toml\<close> file.
  \<open>spawn\<close> returns a new process; the \<open>Map\<close> entry of the id is set to it whatever
  it held. The listeners capture the object \<open>config\<close>, recorded in \<open>spawned\<close>. A
  process that cannot be launched raises \<open>'error'\<close> and then \<open>'close'\<close>, so both of its
  listeners will run.
\<close>

definition startFrp :: "'p env \<Rightarrow> 'p FrpManager \<Rightarrow> addr \<Rightarrow> (error + unit) \<times> 'p FrpManager" where
  "startFrp env s a =
     (case toml_write_error env (id' (heap s a)) (config (heap s a)) of
        Some msg \<Rightarrow> (Inl (Error msg), s)
      | None \<Rightarrow>
          (let c = heap s a;
               frpcProcess = next_pid s;
               s1 = s\<lparr>toml_files := AList.update (id' c) (config c) (toml_files s),
                      next_pid := Suc frpcProcess,
                      spawned := (spawned s)(frpcProcess \<mapsto> a),
                      pending := pending s @
                        (case spawn_error env (id' c) of
                           None \<Rightarrow> []
                         | Some (msg, errno) \<Rightarrow>
                             [(frpcProcess, ProcError msg), (frpcProcess, Close (Some errno))]),
                      processes := AList.update (id' c) frpcProcess (processes s),
                      heap := (heap s)(a := c\<lparr>isRunning := True\<rparr>)\<rparr>
           in (Inr (), notifyStatusChange s1 a)))"

text \<open>The listeners on \<open>stdout\<close>, \<open>stderr\<close>, \<open>'close'\<close> and \<open>'error'\<close>.\<close>

definition on_stdout :: "'p FrpManager \<Rightarrow> addr \<Rightarrow> string \<Rightarrow> 'p FrpManager" where
  "on_stdout s a data = s"

definition on_stderr :: "'p FrpManager \<Rightarrow> addr \<Rightarrow> string \<Rightarrow> 'p FrpManager" where
  "on_stderr s a data = notifyError s (id' (heap s a)) data"

definition on_close :: "'p FrpManager \<Rightarrow> addr \<Rightarrow> int option \<Rightarrow> 'p FrpManager" where
  "on_close s a code =
     (let name' = name (heap s a);
          s1 = s\<lparr>processes := AList.delete (id' (heap s a)) (processes s),
                 heap := (heap s)(a := (heap s a)\<lparr>isRunning := False\<rparr>)\<rparr>;
          s2 = notifyStatusChange s1 a
      in case code of
           None \<Rightarrow> s2
         | Some n \<Rightarrow>
             if n \<noteq> 0 then notifyError s2 name' (exit_code_prefix @ decimal_int n)
             else s2)"

definition on_error :: "'p FrpManager \<Rightarrow> addr \<Rightarrow> string \<Rightarrow> 'p FrpManager" where
  "on_error s a msg =
     (let s1 = s\<lparr>processes := AList.delete (id' (heap s a)) (processes s),
                 heap := (heap s)(a := (heap s a)\<lparr>isRunning := False\<rparr>)\<rparr>;
          s2 = notifyStatusChange s1 a
      in notifyError s2 (id' (heap s2 a)) msg)"

text \<open>An event of process \<open>p\<close> runs the listener registered on that process.\<close>

definition handle :: "'p FrpManager \<Rightarrow> pid \<Rightarrow> proc_event \<Rightarrow> 'p FrpManager" where
  "handle s p ev =
     (case spawned s p of
        None \<Rightarrow> s
      | Some a \<Rightarrow>
          (case ev of
             StdoutData d \<Rightarrow> on_stdout s a d
           | StderrData d \<Rightarrow> on_stderr s a d
           | Close code \<Rightarrow> on_close s a code
           | ProcError msg \<Rightarrow> on_error s a msg))"

text \<open>Delivery of the oldest event that is due.\<close>

definition deliver_pending :: "'p FrpManager \<Rightarrow> 'p FrpManager" where
  "deliver_pending s =
     (case pending s of
        [] \<Rightarrow> s
      | (p, ev) # rest \<Rightarrow> handle (s\<lparr>pending := rest\<rparr>) p ev)"

definition stopFrp :: "'p FrpManager \<Rightarrow> addr \<Rightarrow> 'p FrpManager" where
  "stopFrp s a =
     (case map_of (processes s) (id' (heap s a)) of
        None \<Rightarrow> s
      | Some process \<Rightarrow>
          notifyStatusChange
            (s\<lparr>killed := killed s @ [process],
               processes := AList.delete (id' (heap s a)) (processes s),
               heap := (heap s)(a := (heap s a)\<lparr>isRunning := False\<rparr>)\<rparr>) a)"

definition restartFrp :: "'p env \<Rightarrow> 'p FrpManager \<Rightarrow> addr \<Rightarrow> (error + unit) \<times> 'p FrpManager" where
  "restartFrp env s a = startFrp env (stopFrp s a) a"

definition cleanup :: "'p FrpManager \<Rightarrow> 'p FrpManager" where
  "cleanup s = s\<lparr>killed := killed s @ map snd (processes s), processes := []\<rparr>"

text \<open>
  \<open>deleteConfig\<close>: the error of a failed write is not caught here; it reaches the
  caller as it is.
\<close>

definition deleteConfig :: "'p env \<Rightarrow> 'p FrpManager \<Rightarrow> string \<Rightarrow> (error + unit) \<times> 'p FrpManager" where
  "deleteConfig env s i =
     (case getConfig s i of
        None \<Rightarrow> (Inr (), s)
      | Some a \<Rightarrow>
          (let s1 = stopFrp s a;
               cs = filter (\<lambda>c. id' (heap s1 c) \<noteq> i) (configs s1);
               s2 = s1\<lparr>configs := cs\<rparr>
           in case persist_error env (map (heap s2) cs) of
                Some msg \<Rightarrow> (Inl (Error msg), s2)
              | None \<Rightarrow>
                  (Inr (), s2\<lparr>persisted := Some (map (as_written env) (map (heap s2) cs))\<rparr>)))"

section \<open>Start-up\<close>

text \<open>
  The body of the loop of \<open>startAutoStartConfigs\<close>, with its \<open>try\<close> and \<open>catch\<close>, and
  the loop over the array, one object at a time.
\<close>

definition autoStart_body :: "'p env \<Rightarrow> 'p FrpManager \<Rightarrow> addr \<Rightarrow> 'p FrpManager" where
  "autoStart_body env s a =
     (if autoStart (heap s a) \<and> \<not> isRunning (heap s a) then
        (case startFrp env s a of
           (Inr u, s') \<Rightarrow> s'
         | (Inl (Error msg), s') \<Rightarrow>
             notifyError s' (id' (heap s' a)) (auto_start_failed_prefix @ msg))
      else s)"

fun autoStart_loop :: "'p env \<Rightarrow> addr list \<Rightarrow> 'p FrpManager \<Rightarrow> 'p FrpManager" where
  "autoStart_loop env [] s = s"
| "autoStart_loop env (a # as) s = autoStart_loop env as (autoStart_body env s a)"

definition startAutoStartConfigs :: "'p env \<Rightarrow> 'p FrpManager \<Rightarrow> 'p FrpManager" where
  "startAutoStartConfigs env s = autoStart_loop env (configs s) s"

definition init :: "'p env \<Rightarrow> 'p FrpManager \<Rightarrow> (error + unit) \<times> 'p FrpManager" where
  "init env s =
     (case mkdir_error env of
        Some msg \<Rightarrow> (Inl (Error msg), s)
      | None \<Rightarrow>
          if \<not> binary_accessible env
          then (Inl (Error (binary_missing_prefix @ binPath s)), s)
          else (Inr (), startAutoStartConfigs env (initConfigs s)))"

section \<open>Reachable states\<close>

text \<open>
  The states a manager constructed on a host of architecture \<open>os_arch\<close> can be in:
  after any calls of its methods in any environment, any process events, and any
  change that callers make to the objects or other programs make to the file.
\<close>

inductive reachable :: "string \<Rightarrow> 'p FrpManager \<Rightarrow> bool" for os_arch :: string where
  reach_new: "reachable os_arch (constructor os_arch base disk)"
| reach_init: "reachable os_arch s \<Longrightarrow> reachable os_arch (snd (init env s))"
| reach_save: "reachable os_arch s \<Longrightarrow> reachable os_arch (snd (saveConfig env s a))"
| reach_delete: "reachable os_arch s \<Longrightarrow> reachable os_arch (snd (deleteConfig env s i))"
| reach_start: "reachable os_arch s \<Longrightarrow> reachable os_arch (snd (startFrp env s a))"
| reach_stop: "reachable os_arch s \<Longrightarrow> reachable os_arch (stopFrp s a)"
| reach_restart: "reachable os_arch s \<Longrightarrow> reachable os_arch (snd (restartFrp env s a))"
| reach_cleanup: "reachable os_arch s \<Longrightarrow> reachable os_arch (cleanup s)"
| reach_event: "reachable os_arch s \<Longrightarrow> reachable os_arch (handle s p ev)"
| reach_deliver: "reachable os_arch s \<Longrightarrow> reachable os_arch (deliver_pending s)"
| reach_query: "reachable os_arch s \<Longrightarrow> reachable os_arch (snd (getArchitecture s))"
| reach_world:
    "reachable os_arch s \<Longrightarrow> reachable os_arch (s\<lparr>heap := h, next_addr := n, persisted := d\<rparr>)"

section \<open>Example inputs\<close>

definition toy_parse :: "string \<Rightarrow> string + nat" where
  "toy_parse body = (if body = ''['' then Inl ''Unexpected end of input'' else Inr (length body))"

definition calm_env :: "nat env" where
  "calm_env = \<lparr>TOML_parse = toy_parse, toml_write_error = (\<lambda>i body. None),
     persist_error = (\<lambda>records. None), json_value = (\<lambda>v. v), spawn_error = (\<lambda>i. None),
     mkdir_error = None, binary_accessible = True\<rparr>"

definition disk_full_env :: "nat env" where
  "disk_full_env = calm_env\<lparr>persist_error := (\<lambda>records. Some ''ENOSPC'')\<rparr>"

definition no_binary_env :: "nat env" where
  "no_binary_env = calm_env\<lparr>spawn_error := (\<lambda>i. Some (''spawn frpc ENOENT'', - 2))\<rparr>"

definition locked_env :: "string \<Rightarrow> nat env" where
  "locked_env k =
     calm_env\<lparr>toml_write_error := (\<lambda>i body. if i = k then Some ''EACCES'' else None)\<rparr>"

definition cfgA :: "nat FrpConfig" where
  "cfgA = \<lparr>id' = ''A'', name = ''alpha'', config = ''a = 1'', isRunning = False,
     autoStart = True, parsedConfig = None\<rparr>"

definition cfgB :: "nat FrpConfig" where
  "cfgB = \<lparr>id' = ''B'', name = ''beta'', config = ''b = 2'', isRunning = False,
     autoStart = False, parsedConfig = None\<rparr>"

definition cfgC :: "nat FrpConfig" where
  "cfgC = \<lparr>id' = ''C'', name = ''gamma'', config = ''c = 3'', isRunning = False,
     autoStart = True, parsedConfig = None\<rparr>"

definition cfgBad :: "nat FrpConfig" where
  "cfgBad = \<lparr>id' = ''A'', name = ''alpha'', config = ''['', isRunning = False,
     autoStart = True, parsedConfig = None\<rparr>"

text \<open>Managers constructed on a file that holds \<open>A\<close> and \<open>B\<close>, or \<open>C\<close>, \<open>A\<close> and \<open>B\<close>.\<close>

definition fresh_AB :: "nat FrpManager" where
  "fresh_AB = constructor ''arm64'' ''/app'' (Some [cfgA, cfgB])"

definition cfgA2 :: "nat FrpConfig" where
  "cfgA2 = \<lparr>id' = ''A'', name = ''alpha'', config = ''a = 22'', isRunning = False,
     autoStart = False, parsedConfig = None\<rparr>"

text \<open>A manager with an empty registry and the given objects, not saved yet, at 0, 1, ...\<close>

definition with_objects :: "nat FrpConfig list \<Rightarrow> nat FrpManager" where
  "with_objects cs =
     (constructor ''x64'' ''/app'' None)\<lparr>heap := load_objects (\<lambda>_. blank_config) 0 cs,
        next_addr := length cs\<rparr>"

text \<open>The object at 0 saved, and then started.\<close>

definition saved_A :: "nat FrpManager" where
  "saved_A = snd (saveConfig calm_env (with_objects [cfgA, cfgB]) 0)"

definition running_A :: "nat FrpManager" where
  "running_A = snd (startFrp calm_env saved_A 0)"

definition fresh_CAB :: "nat FrpManager" where
  "fresh_CAB = constructor ''arm64'' ''/app'' (Some [cfgC, cfgA, cfgB])"

definition cfgA_running :: "nat FrpConfig" where
  "cfgA_running = cfgA\<lparr>isRunning := True\<rparr>"

text \<open>
  A boot on the file that holds \<open>A\<close> and \<open>B\<close>, then a save of \<open>B\<close> (the object at 1),
  then a boot of a new manager on the file as that save left it.
\<close>

definition booted_AB :: "nat FrpManager" where
  "booted_AB = snd (init calm_env fresh_AB)"

definition resaved_AB :: "nat FrpManager" where
  "resaved_AB = snd (saveConfig calm_env booted_AB 1)"

definition rebooted_AB :: "nat FrpManager" where
  "rebooted_AB = snd (init calm_env (constructor ''arm64'' ''/app'' (persisted resaved_AB)))"

text \<open>The number of records of the registry that carry a given id.\<close>

definition id_count :: "'p FrpManager \<Rightarrow> string \<Rightarrow> nat" where
  "id_count s i = length (filter (\<lambda>c. id' (heap s c) = i) (configs s))"

section \<open>The architecture query\<close>

lemma architecture_startFrp: "architecture (snd (startFrp env s a)) = architecture s"
  by (simp add: startFrp_def notifyStatusChange_def Let_def split: option.splits)

lemma architecture_stopFrp: "architecture (stopFrp s a) = architecture s"
  by (simp add: stopFrp_def notifyStatusChange_def split: option.splits)

lemma architecture_saveConfig: "architecture (snd (saveConfig env s a)) = architecture s"
  by (simp add: saveConfig_def Let_def split: option.splits sum.splits)

lemma architecture_deleteConfig: "architecture (snd (deleteConfig env s i)) = architecture s"
  by (simp add: deleteConfig_def Let_def architecture_stopFrp split: option.splits)

lemma architecture_handle: "architecture (handle s p ev) = architecture s"
  by (simp add: handle_def on_stdout_def on_stderr_def on_close_def on_error_def
      notifyError_def notifyStatusChange_def Let_def split: option.splits proc_event.splits)

lemma architecture_autoStart_body: "architecture (autoStart_body env s a) = architecture s"
proof (cases "startFrp env s a")
  case (Pair r s')
  with architecture_startFrp [of env s a] have s': "architecture s' = architecture s"
    by simp
  show ?thesis
  proof (cases r)
    case (Inl e)
    with Pair s' show ?thesis
      by (cases e) (simp add: autoStart_body_def notifyError_def)
  next
    case (Inr u)
    with Pair s' show ?thesis
      by (simp add: autoStart_body_def)
  qed
qed

lemma architecture_autoStart_loop: "architecture (autoStart_loop env as s) = architecture s"
  by (induction as arbitrary: s) (simp_all add: architecture_autoStart_body)

lemma architecture_init: "architecture (snd (init env s)) = architecture s"
  by (simp add: init_def startAutoStartConfigs_def architecture_autoStart_loop initConfigs_def
      split: option.splits)

lemma architecture_reachable:
  "reachable os_arch s \<Longrightarrow> architecture s = detectArchitecture os_arch"
proof (induction rule: reachable.induct)
  case (reach_new base disk)
  show ?case by (simp add: constructor_def)
next
  case (reach_restart s env a)
  then show ?case by (simp add: restartFrp_def architecture_startFrp architecture_stopFrp)
next
  case (reach_deliver s)
  then show ?case
    by (simp add: deliver_pending_def architecture_handle split: list.splits prod.splits)
qed (simp_all add: architecture_init architecture_saveConfig architecture_deleteConfig
      architecture_startFrp architecture_stopFrp architecture_handle cleanup_def
      getArchitecture_def)

text \<open>
  Claim C10. In every state of a manager constructed on a host whose \<open>os.arch()\<close> is
  \<open>os_arch\<close>, \<open>getArchitecture\<close> returns \<open>arm64\<close> when \<open>os_arch\<close> is \<open>arm64\<close> and
  \<open>x64\<close> for every other value, so one of these two values, and leaves the state,
  with the registry and the process table in it, as it was.
\<close>

theorem getArchitecture_two_values:
  assumes "reachable os_arch s"
  shows "getArchitecture s = (if os_arch = ''arm64'' then ''arm64'' else ''x64'', s)
       \<and> fst (getArchitecture s) \<in> {''arm64'', ''x64''}
       \<and> configs (snd (getArchitecture s)) = configs s
       \<and> processes (snd (getArchitecture s)) = processes s"
  using architecture_reachable [OF assms]
  by (simp add: getArchitecture_def detectArchitecture_def)

theorem getArchitecture_two_values_witness:
  "reachable ''ia32'' (cleanup (constructor ''ia32'' ''/app'' (Some [cfgA])))
   \<and> fst (getArchitecture (cleanup (constructor ''ia32'' ''/app'' (Some [cfgA])))) = ''x64''"
proof -
  have r: "reachable ''ia32'' (cleanup (constructor ''ia32'' ''/app'' (Some [cfgA])))"
    by (rule reach_cleanup [OF reach_new])
  show ?thesis using r getArchitecture_two_values [OF r] by simp
qed

section \<open>Rejected saves\<close>

text \<open>
  Claim C3. When \<open>TOML.parse\<close> rejects the body of the configuration, \<open>saveConfig\<close>
  throws an error whose message is the invalid-TOML prefix followed by the message of
  the parse error, and the state after the call is the state before it: the objects,
  the array and the file are untouched.
\<close>

theorem saveConfig_invalid_body:
  assumes "TOML_parse env (config (heap s a)) = Inl msg"
  shows "saveConfig env s a = (Inl (Error (invalid_toml_prefix @ msg)), s)"
  using assms by (simp add: saveConfig_def)

theorem saveConfig_invalid_body_witness:
  "TOML_parse calm_env (config (heap (with_objects [cfgBad]) 0)) = Inl ''Unexpected end of input''
   \<and> saveConfig calm_env (with_objects [cfgBad]) 0
       = (Inl (Error (invalid_toml_prefix @ ''Unexpected end of input'')), with_objects [cfgBad])"
proof -
  have h: "TOML_parse calm_env (config (heap (with_objects [cfgBad]) 0)) = Inl ''Unexpected end of input''"
    by (simp add: calm_env_def with_objects_def cfgBad_def toy_parse_def)
  show ?thesis using h saveConfig_invalid_body [OF h] by simp
qed

section \<open>Saving and looking up\<close>

lemma findIndex_None: "findIndex P xs = None \<longleftrightarrow> (\<forall>x \<in> set xs. \<not> P x)"
  by (induction xs) auto

lemma findIndex_Some:
  "findIndex P xs = Some i \<Longrightarrow> i < length xs \<and> P (xs ! i) \<and> (\<forall>j < i. \<not> P (xs ! j))"
proof (induction xs arbitrary: i)
  case Nil
  then show ?case by simp
next
  case (Cons x xs)
  show ?case
  proof (cases "P x")
    case True
    with Cons.prems show ?thesis by simp
  next
    case False
    with Cons.prems obtain k where k: "findIndex P xs = Some k" "i = Suc k" by auto
    from Cons.IH [OF k(1)] False k(2) show ?thesis
      by (auto simp: nth_Cons split: nat.splits)
  qed
qed

lemma find_None_findIndex: "find P xs = None \<longleftrightarrow> findIndex P xs = None"
  by (induction xs) auto

lemma find_update_first:
  "findIndex P xs = Some i \<Longrightarrow> P a \<Longrightarrow> find P (xs[i := a]) = Some a"
proof (induction xs arbitrary: i)
  case Nil
  then show ?case by simp
next
  case (Cons x xs)
  then show ?case by (cases "P x") auto
qed

lemma find_append_new:
  "findIndex P xs = None \<Longrightarrow> P a \<Longrightarrow> find P (xs @ [a]) = Some a"
  by (induction xs) (auto split: if_splits)

lemma filter_update_same:
  "findIndex P xs = Some i \<Longrightarrow> P a \<Longrightarrow> length (filter P (xs[i := a])) = length (filter P xs)"
proof (induction xs arbitrary: i)
  case Nil
  then show ?case by simp
next
  case (Cons x xs)
  then show ?case by (cases "P x") auto
qed

text \<open>The state after the in-memory part of a save with a valid body.\<close>

lemma saveConfig_valid:
  assumes "TOML_parse env (config (heap s a)) = Inr p"
  shows "heap (snd (saveConfig env s a)) = (heap s)(a := (heap s a)\<lparr>parsedConfig := Some p\<rparr>)"
    and "configs (snd (saveConfig env s a)) =
          (case findIndex (\<lambda>c. id' (heap s c) = id' (heap s a)) (configs s) of
             Some index \<Rightarrow> (configs s)[index := a]
           | None \<Rightarrow> configs s @ [a])"
proof -
  define h where "h = (heap s)(a := (heap s a)\<lparr>parsedConfig := Some p\<rparr>)"
  have hid: "\<And>c. id' (h c) = id' (heap s c)"
    by (simp add: h_def)
  have unfolded: "saveConfig env s a =
     (let cs = (case findIndex (\<lambda>c. id' (h c) = id' (h a)) (configs s) of
                  Some index \<Rightarrow> (configs s)[index := a]
                | None \<Rightarrow> configs s @ [a]);
          s1 = s\<lparr>heap := h, configs := cs\<rparr>
      in case persist_error env (map h cs) of
           Some msg \<Rightarrow> (Inl (Error (invalid_toml_prefix @ msg)), s1)
         | None \<Rightarrow> (Inr (), s1\<lparr>persisted := Some (map (as_written env) (map h cs))\<rparr>))"
    using assms unfolding h_def by (simp only: saveConfig_def sum.case Let_def)
  show "heap (snd (saveConfig env s a)) = (heap s)(a := (heap s a)\<lparr>parsedConfig := Some p\<rparr>)"
    unfolding unfolded h_def [symmetric] by (simp add: Let_def split: option.splits)
  show "configs (snd (saveConfig env s a)) =
          (case findIndex (\<lambda>c. id' (heap s c) = id' (heap s a)) (configs s) of
             Some index \<Rightarrow> (configs s)[index := a]
           | None \<Rightarrow> configs s @ [a])"
    unfolding unfolded by (simp add: Let_def hid split: option.splits)
qed

lemma saveConfig_id_unchanged:
  assumes "TOML_parse env (config (heap s a)) = Inr p"
  shows "id' (heap (snd (saveConfig env s a)) c) = id' (heap s c)"
  by (simp add: saveConfig_valid(1) [OF assms])

lemma saveConfig_getConfig:
  assumes "TOML_parse env (config (heap s a)) = Inr p"
  shows "getConfig (snd (saveConfig env s a)) (id' (heap s a)) = Some a"
proof -
  let ?P = "\<lambda>c. id' (heap s c) = id' (heap s a)"
  have P: "(\<lambda>c. id' (heap (snd (saveConfig env s a)) c) = id' (heap s a)) = ?P"
    by (rule ext) (simp add: saveConfig_id_unchanged [OF assms])
  show ?thesis
  proof (cases "findIndex ?P (configs s)")
    case None
    then show ?thesis
      by (simp add: getConfig_def P saveConfig_valid(2) [OF assms] find_append_new)
  next
    case (Some i)
    then show ?thesis
      by (simp add: getConfig_def P saveConfig_valid(2) [OF assms] find_update_first)
  qed
qed

lemma saveConfig_length:
  assumes "TOML_parse env (config (heap s a)) = Inr p"
  shows "length (configs (snd (saveConfig env s a))) =
           (if getConfig s (id' (heap s a)) = None then Suc (length (configs s))
            else length (configs s))"
  by (auto simp: saveConfig_valid(2) [OF assms] getConfig_def find_None_findIndex
      split: option.splits)

lemma saveConfig_id_count:
  assumes "TOML_parse env (config (heap s a)) = Inr p"
  shows "id_count (snd (saveConfig env s a)) (id' (heap s a)) =
           (if id_count s (id' (heap s a)) = 0 then 1 else id_count s (id' (heap s a)))"
proof -
  let ?P = "\<lambda>c. id' (heap s c) = id' (heap s a)"
  have P: "(\<lambda>c. id' (heap (snd (saveConfig env s a)) c) = id' (heap s a)) = ?P"
    by (rule ext) (simp add: saveConfig_id_unchanged [OF assms])
  show ?thesis
  proof (cases "findIndex ?P (configs s)")
    case None
    then have "filter ?P (configs s) = []"
      by (simp add: findIndex_None filter_empty_conv)
    with None show ?thesis
      by (simp add: id_count_def P saveConfig_valid(2) [OF assms])
  next
    case (Some i)
    from findIndex_Some [OF Some] have "i < length (configs s)" "?P (configs s ! i)"
      by simp_all
    then have "filter ?P (configs s) \<noteq> []"
      by (auto simp: filter_empty_conv)
    with Some show ?thesis
      by (simp add: id_count_def P saveConfig_valid(2) [OF assms] filter_update_same)
  qed
qed

lemma filter_update_other:
  "findIndex P xs = Some i \<Longrightarrow> P a \<Longrightarrow> (\<And>x. Q x \<Longrightarrow> \<not> P x) \<Longrightarrow>
   filter Q (xs[i := a]) = filter Q xs"
proof (induction xs arbitrary: i)
  case Nil
  then show ?case by simp
next
  case (Cons x xs)
  then show ?case by (cases "P x") auto
qed

lemma saveConfig_id_count_other:
  assumes "TOML_parse env (config (heap s a)) = Inr p" and "j \<noteq> id' (heap s a)"
  shows "id_count (snd (saveConfig env s a)) j = id_count s j"
proof -
  let ?P = "\<lambda>c. id' (heap s c) = id' (heap s a)"
  have Q: "(\<lambda>c. id' (heap (snd (saveConfig env s a)) c) = j) = (\<lambda>c. id' (heap s c) = j)"
    by (rule ext) (simp add: saveConfig_id_unchanged [OF assms(1)])
  show ?thesis
  proof (cases "findIndex ?P (configs s)")
    case None
    then show ?thesis using assms(2)
      by (simp add: id_count_def Q saveConfig_valid(2) [OF assms(1)])
  next
    case (Some k)
    have "filter (\<lambda>c. id' (heap s c) = j) ((configs s)[k := a])
        = filter (\<lambda>c. id' (heap s c) = j) (configs s)"
      by (rule filter_update_other [OF Some]) (use assms(2) in auto)
    with Some show ?thesis
      by (simp add: id_count_def Q saveConfig_valid(2) [OF assms(1)])
  qed
qed

text \<open>
  Claim C7. When the body of the object \<open>a\<close> parses, after \<open>saveConfig\<close> the lookup of
  its id returns \<open>a\<close> itself, whose body is the one saved. The array grows by one only when
  no record had the id before; otherwise the first record with the id is replaced in
  place. A second save under the same id (object \<open>b\<close>, possibly \<open>a\<close> again, with a body
  that parses) is then found by the lookup, keeps the id, leaves the length of the array
  and the number of records with the id as they were after the first save; that number
  is one unless the registry held several records with the id before. The number of
  records with any other id is not changed by a save, so a registry in which no id
  occurs twice stays so.
\<close>

theorem save_then_get:
  assumes first: "TOML_parse env (config (heap s a)) = Inr p"
    and second: "TOML_parse env2 (config (heap s b)) = Inr q"
    and same_id: "id' (heap s b) = id' (heap s a)"
  shows "getConfig (snd (saveConfig env s a)) (id' (heap s a)) = Some a
       \<and> heap (snd (saveConfig env s a)) a = (heap s a)\<lparr>parsedConfig := Some p\<rparr>
       \<and> config (heap (snd (saveConfig env s a)) a) = config (heap s a)
       \<and> length (configs (snd (saveConfig env s a))) =
           (if getConfig s (id' (heap s a)) = None then Suc (length (configs s))
            else length (configs s))
       \<and> id_count (snd (saveConfig env s a)) (id' (heap s a)) =
           (if id_count s (id' (heap s a)) = 0 then 1 else id_count s (id' (heap s a)))
       \<and> (j \<noteq> id' (heap s a) \<longrightarrow> id_count (snd (saveConfig env s a)) j = id_count s j)
       \<and> getConfig (snd (saveConfig env2 (snd (saveConfig env s a)) b)) (id' (heap s a)) = Some b
       \<and> config (heap (snd (saveConfig env2 (snd (saveConfig env s a)) b)) b) = config (heap s b)
       \<and> id' (heap (snd (saveConfig env2 (snd (saveConfig env s a)) b)) b) = id' (heap s a)
       \<and> length (configs (snd (saveConfig env2 (snd (saveConfig env s a)) b))) =
           length (configs (snd (saveConfig env s a)))
       \<and> id_count (snd (saveConfig env2 (snd (saveConfig env s a)) b)) (id' (heap s a)) =
           id_count (snd (saveConfig env s a)) (id' (heap s a))"
proof -
  let ?s1 = "snd (saveConfig env s a)"
  have h1: "heap ?s1 = (heap s)(a := (heap s a)\<lparr>parsedConfig := Some p\<rparr>)"
    by (rule saveConfig_valid(1) [OF first])
  have body_b: "config (heap ?s1 b) = config (heap s b)"
    by (simp add: h1)
  have id_b: "id' (heap ?s1 b) = id' (heap s a)"
    by (simp add: h1 same_id)
  have second1: "TOML_parse env2 (config (heap ?s1 b)) = Inr q"
    by (simp add: body_b second)
  have get1: "getConfig ?s1 (id' (heap s a)) = Some a"
    by (rule saveConfig_getConfig [OF first])
  have count1: "id_count ?s1 (id' (heap s a)) =
      (if id_count s (id' (heap s a)) = 0 then 1 else id_count s (id' (heap s a)))"
    by (rule saveConfig_id_count [OF first])
  have get2: "getConfig (snd (saveConfig env2 ?s1 b)) (id' (heap s a)) = Some b"
    using saveConfig_getConfig [OF second1] by (simp add: id_b)
  have len2: "length (configs (snd (saveConfig env2 ?s1 b))) = length (configs ?s1)"
    using saveConfig_length [OF second1] get1 by (simp add: id_b)
  have count2: "id_count (snd (saveConfig env2 ?s1 b)) (id' (heap s a)) =
      id_count ?s1 (id' (heap s a))"
    using saveConfig_id_count [OF second1] count1 by (simp add: id_b split: if_splits)
  have h2: "heap (snd (saveConfig env2 ?s1 b)) b = (heap ?s1 b)\<lparr>parsedConfig := Some q\<rparr>"
    by (simp add: saveConfig_valid(1) [OF second1])
  have others: "j \<noteq> id' (heap s a) \<longrightarrow> id_count ?s1 j = id_count s j"
    using saveConfig_id_count_other [OF first] by blast
  show ?thesis
    using get1 count1 get2 len2 count2 others saveConfig_length [OF first]
    by (simp add: h1 h2 same_id)
qed

theorem save_then_get_witness:
  "TOML_parse calm_env (config (heap (with_objects [cfgA, cfgA2]) 0)) = Inr 5
   \<and> TOML_parse calm_env (config (heap (with_objects [cfgA, cfgA2]) 1)) = Inr 6
   \<and> id' (heap (with_objects [cfgA, cfgA2]) 1) = id' (heap (with_objects [cfgA, cfgA2]) 0)
   \<and> getConfig (snd (saveConfig calm_env (with_objects [cfgA, cfgA2]) 0)) ''A'' = Some 0
   \<and> config (heap (snd (saveConfig calm_env (with_objects [cfgA, cfgA2]) 0)) 0) = ''a = 1''
   \<and> length (configs (snd (saveConfig calm_env (with_objects [cfgA, cfgA2]) 0))) = 1
   \<and> id_count (snd (saveConfig calm_env (with_objects [cfgA, cfgA2]) 0)) ''A'' = 1
   \<and> id_count (snd (saveConfig calm_env (with_objects [cfgA, cfgA2]) 0)) ''B'' = 0
   \<and> getConfig (snd (saveConfig calm_env
         (snd (saveConfig calm_env (with_objects [cfgA, cfgA2]) 0)) 1)) ''A'' = Some 1
   \<and> config (heap (snd (saveConfig calm_env
         (snd (saveConfig calm_env (with_objects [cfgA, cfgA2]) 0)) 1)) 1) = ''a = 22''
   \<and> length (configs (snd (saveConfig calm_env
         (snd (saveConfig calm_env (with_objects [cfgA, cfgA2]) 0)) 1))) = 1"
proof -
  have f: "TOML_parse calm_env (config (heap (with_objects [cfgA, cfgA2]) 0)) = Inr 5"
    by (simp add: calm_env_def with_objects_def cfgA_def cfgA2_def toy_parse_def)
  have g: "TOML_parse calm_env (config (heap (with_objects [cfgA, cfgA2]) 1)) = Inr 6"
    by (simp add: calm_env_def with_objects_def cfgA_def cfgA2_def toy_parse_def)
  have i: "id' (heap (with_objects [cfgA, cfgA2]) 1) = id' (heap (with_objects [cfgA, cfgA2]) 0)"
    by (simp add: with_objects_def cfgA_def cfgA2_def)
  have basics: "id' (heap (with_objects [cfgA, cfgA2]) 0) = ''A''"
    "config (heap (with_objects [cfgA, cfgA2]) 0) = ''a = 1''"
    "config (heap (with_objects [cfgA, cfgA2]) (Suc 0)) = ''a = 22''"
    "configs (with_objects [cfgA, cfgA2]) = []"
    by (simp_all add: with_objects_def cfgA_def cfgA2_def constructor_def)
  have none: "getConfig (with_objects [cfgA, cfgA2]) ''A'' = None"
    by (simp add: getConfig_def basics)
  have counts: "id_count (with_objects [cfgA, cfgA2]) ''A'' = 0"
    "id_count (with_objects [cfgA, cfgA2]) ''B'' = 0"
    by (simp_all add: id_count_def basics)
  show ?thesis
    using f g i save_then_get [OF f g i, of "''B''"] by (simp add: basics none counts)
qed

section \<open>Deleting\<close>

lemma stopFrp_tracked:
  assumes "map_of (processes s) (id' (heap s a)) = Some p"
  shows "stopFrp s a =
     s\<lparr>killed := killed s @ [p],
       processes := AList.delete (id' (heap s a)) (processes s),
       heap := (heap s)(a := (heap s a)\<lparr>isRunning := False\<rparr>),
       sent := sent s @ [StatusChanged ((heap s a)\<lparr>isRunning := False\<rparr>)],
       listed := listed s @
         [map ((heap s)(a := (heap s a)\<lparr>isRunning := False\<rparr>)) (configs s)]\<rparr>"
  using assms by (simp add: stopFrp_def notifyStatusChange_def)

lemma stopFrp_ids: "id' (heap (stopFrp s a) c) = id' (heap s c)"
  by (simp add: stopFrp_def notifyStatusChange_def split: option.splits)

lemma stopFrp_configs: "configs (stopFrp s a) = configs s"
  by (simp add: stopFrp_def notifyStatusChange_def split: option.splits)

lemma getConfig_Some_id: "getConfig s i = Some a \<Longrightarrow> id' (heap s a) = i \<and> a \<in> set (configs s)"
  by (auto simp: getConfig_def find_Some_iff)

lemma find_filter_out: "find P (filter (\<lambda>x. \<not> P x) xs) = None"
  by (induction xs) auto

lemma deleteConfig_present:
  assumes "getConfig s i = Some a"
  shows "configs (snd (deleteConfig env s i)) = filter (\<lambda>c. id' (heap s c) \<noteq> i) (configs s)"
    and "heap (snd (deleteConfig env s i)) = heap (stopFrp s a)"
    and "sent (snd (deleteConfig env s i)) = sent (stopFrp s a)"
    and "killed (snd (deleteConfig env s i)) = killed (stopFrp s a)"
    and "processes (snd (deleteConfig env s i)) = processes (stopFrp s a)"
  using assms
  by (simp_all add: deleteConfig_def Let_def stopFrp_ids stopFrp_configs split: option.splits)

lemma running_A_fields:
  "configs running_A = [0]"
  "heap running_A 0 = cfgA\<lparr>parsedConfig := Some 5, isRunning := True\<rparr>"
  "processes running_A = [(''A'', 0)]"
  "killed running_A = []"
  "sent running_A = [StatusChanged (cfgA\<lparr>parsedConfig := Some 5, isRunning := True\<rparr>)]"
  "next_pid running_A = 1"
  "pending running_A = []"
  by (simp_all add: running_A_def saved_A_def startFrp_def saveConfig_def with_objects_def
      constructor_def calm_env_def toy_parse_def cfgA_def cfgB_def notifyStatusChange_def Let_def)

lemma stopFrp_listed:
  assumes "map_of (processes s) (id' (heap s a)) = Some p"
  shows "listed (stopFrp s a) = listed s @ [list_records (stopFrp s a)]"
  by (simp add: stopFrp_tracked [OF assms] list_records_def getConfigs_def)

lemma deleteConfig_listed:
  assumes "getConfig s i = Some a"
  shows "listed (snd (deleteConfig env s i)) = listed (stopFrp s a)"
  using assms
  by (simp add: deleteConfig_def Let_def split: option.splits)

text \<open>
  Claim C8. \<open>deleteConfig\<close> of an id that no record has returns without error and
  leaves the state as it was. For an id whose record is \<open>a\<close> and which has the tracked
  process \<open>p\<close>, \<open>deleteConfig\<close> runs \<open>stopFrp\<close> first: that sends the termination
  signal to \<open>p\<close>, removes the entry of the id from the process table and sends one
  status-changed message carrying the record with \<open>isRunning = false\<close>. At the moment
  this message is sent the registry still lists the record, stopped; the registry is
  filtered only afterwards, no further message is sent, and at the end no record with
  the id is listed.
\<close>

theorem deleteConfig_stops_first:
  "(getConfig s i = None \<longrightarrow> deleteConfig env s i = (Inr (), s))
   \<and> (getConfig s i = Some a \<and> map_of (processes s) i = Some p \<longrightarrow>
        sent (stopFrp s a) = sent s @ [StatusChanged ((heap s a)\<lparr>isRunning := False\<rparr>)]
      \<and> killed (stopFrp s a) = killed s @ [p]
      \<and> map_of (processes (stopFrp s a)) i = None
      \<and> getConfig (stopFrp s a) i = Some a
      \<and> configs (snd (deleteConfig env s i))
          = filter (\<lambda>c. id' (heap (stopFrp s a) c) \<noteq> i) (configs (stopFrp s a))
      \<and> getConfig (snd (deleteConfig env s i)) i = None
      \<and> sent (snd (deleteConfig env s i)) = sent (stopFrp s a)
      \<and> killed (snd (deleteConfig env s i)) = killed (stopFrp s a)
      \<and> map_of (processes (snd (deleteConfig env s i))) i = None
      \<and> listed (snd (deleteConfig env s i)) = listed s @ [list_records (stopFrp s a)]
      \<and> (heap s a)\<lparr>isRunning := False\<rparr> \<in> set (list_records (stopFrp s a))
      \<and> id' ((heap s a)\<lparr>isRunning := False\<rparr>) = i
      \<and> (heap s a)\<lparr>isRunning := False\<rparr> \<notin> set (list_records (snd (deleteConfig env s i))))"
proof (intro conjI impI)
  assume "getConfig s i = None"
  then show "deleteConfig env s i = (Inr (), s)"
    by (simp add: deleteConfig_def)
next
  assume h: "getConfig s i = Some a \<and> map_of (processes s) i = Some p"
  then have g: "getConfig s i = Some a" and id_a: "id' (heap s a) = i"
    and mem: "a \<in> set (configs s)"
    using getConfig_Some_id by auto
  from h id_a have tr: "map_of (processes s) (id' (heap s a)) = Some p" by simp
  note st = stopFrp_tracked [OF tr]
  show "sent (stopFrp s a) = sent s @ [StatusChanged ((heap s a)\<lparr>isRunning := False\<rparr>)]"
    by (simp add: st)
  show "killed (stopFrp s a) = killed s @ [p]"
    by (simp add: st)
  show "map_of (processes (stopFrp s a)) i = None"
    by (simp add: st id_a delete_conv')
  have same: "(\<lambda>c. id' (heap (stopFrp s a) c) = i) = (\<lambda>c. id' (heap s c) = i)"
    by (rule ext) (simp add: stopFrp_ids)
  show "getConfig (stopFrp s a) i = Some a"
    using g by (simp add: getConfig_def same stopFrp_configs)
  show "configs (snd (deleteConfig env s i))
          = filter (\<lambda>c. id' (heap (stopFrp s a) c) \<noteq> i) (configs (stopFrp s a))"
    by (simp add: deleteConfig_present(1) [OF g] stopFrp_ids stopFrp_configs)
  show "getConfig (snd (deleteConfig env s i)) i = None"
    by (simp add: getConfig_def deleteConfig_present(1,2) [OF g] same find_filter_out)
  show "sent (snd (deleteConfig env s i)) = sent (stopFrp s a)"
    by (rule deleteConfig_present(3) [OF g])
  show "killed (snd (deleteConfig env s i)) = killed (stopFrp s a)"
    by (rule deleteConfig_present(4) [OF g])
  show "map_of (processes (snd (deleteConfig env s i))) i = None"
    by (simp add: deleteConfig_present(5) [OF g] st id_a delete_conv')
  show "listed (snd (deleteConfig env s i)) = listed s @ [list_records (stopFrp s a)]"
    by (simp add: deleteConfig_listed [OF g] stopFrp_listed [OF tr])
  have "heap (stopFrp s a) a = (heap s a)\<lparr>isRunning := False\<rparr>"
    by (simp add: st)
  with mem show "(heap s a)\<lparr>isRunning := False\<rparr> \<in> set (list_records (stopFrp s a))"
    by (force simp: list_records_def getConfigs_def stopFrp_configs)
  show "id' ((heap s a)\<lparr>isRunning := False\<rparr>) = i"
    by (simp add: id_a)
  show "(heap s a)\<lparr>isRunning := False\<rparr> \<notin> set (list_records (snd (deleteConfig env s i)))"
  proof
    assume "(heap s a)\<lparr>isRunning := False\<rparr> \<in> set (list_records (snd (deleteConfig env s i)))"
    then obtain c where c: "c \<in> set (configs (snd (deleteConfig env s i)))"
      and eq: "heap (snd (deleteConfig env s i)) c = (heap s a)\<lparr>isRunning := False\<rparr>"
      by (auto simp: list_records_def getConfigs_def)
    from c have "id' (heap s c) \<noteq> i"
      by (simp add: deleteConfig_present(1) [OF g])
    moreover have "id' (heap (snd (deleteConfig env s i)) c) = id' (heap s c)"
      by (simp add: deleteConfig_present(2) [OF g] stopFrp_ids)
    ultimately show False using eq id_a by simp
  qed
qed

theorem deleteConfig_stops_first_witness:
  "getConfig running_A ''Z'' = None
   \<and> deleteConfig calm_env running_A ''Z'' = (Inr (), running_A)
   \<and> getConfig running_A ''A'' = Some 0
   \<and> map_of (processes running_A) ''A'' = Some 0
   \<and> sent (stopFrp running_A 0)
        = sent running_A @ [StatusChanged (cfgA\<lparr>parsedConfig := Some 5, isRunning := False\<rparr>)]
   \<and> killed (stopFrp running_A 0) = [0]
   \<and> getConfig (stopFrp running_A 0) ''A'' = Some 0
   \<and> getConfig (snd (deleteConfig calm_env running_A ''A'')) ''A'' = None
   \<and> sent (snd (deleteConfig calm_env running_A ''A'')) = sent (stopFrp running_A 0)
   \<and> listed (snd (deleteConfig calm_env running_A ''A''))
        = listed running_A @ [[cfgA\<lparr>parsedConfig := Some 5, isRunning := False\<rparr>]]
   \<and> list_records (snd (deleteConfig calm_env running_A ''A'')) = []"
proof -
  have absent: "getConfig running_A ''Z'' = None"
    by (simp add: getConfig_def running_A_fields cfgA_def)
  have present: "getConfig running_A ''A'' = Some 0 \<and> map_of (processes running_A) ''A'' = Some 0"
    by (simp add: getConfig_def running_A_fields cfgA_def)
  have tr: "map_of (processes running_A) (id' (heap running_A 0)) = Some 0"
    by (simp add: running_A_fields cfgA_def)
  have stopped: "list_records (stopFrp running_A 0)
      = [cfgA\<lparr>parsedConfig := Some 5, isRunning := False\<rparr>]"
    by (simp add: stopFrp_tracked [OF tr] list_records_def getConfigs_def running_A_fields
        cfgA_def)
  have gone: "list_records (snd (deleteConfig calm_env running_A ''A'')) = []"
    using present
    by (simp add: list_records_def getConfigs_def deleteConfig_present(1) running_A_fields
        cfgA_def)
  from deleteConfig_stops_first [of running_A "''Z''" calm_env]
  have no_op: "deleteConfig calm_env running_A ''Z'' = (Inr (), running_A)"
    using absent by blast
  from deleteConfig_stops_first [of running_A "''A''" calm_env 0 0] present
  show ?thesis
    using absent no_op by (simp add: running_A_fields stopped gone)
qed


section \<open>Start-up of the configurations marked for it\<close>

lemma load_objects_below: "m < n \<Longrightarrow> load_objects h n cs m = h m"
  by (induction cs arbitrary: h n) simp_all

lemma load_objects_map: "map (load_objects h n cs) [n ..< n + length cs] = cs"
proof (induction cs arbitrary: h n)
  case Nil
  show ?case by simp
next
  case (Cons c cs)
  have split: "[n ..< n + length (c # cs)] = n # [Suc n ..< Suc n + length cs]"
    by (simp add: upt_conv_Cons del: upt_Suc)
  have ih: "map (load_objects (h(n := c)) (Suc n) cs) [Suc n ..< Suc (n + length cs)] = cs"
    using Cons.IH [of "h(n := c)" "Suc n"] by (simp del: upt_Suc fun_upd_apply)
  show ?case
    unfolding split by (simp add: load_objects_below ih del: upt_Suc)
qed

lemma initConfigs_records:
  "list_records (initConfigs s) = (case persisted s of None \<Rightarrow> [] | Some cs \<Rightarrow> cs)"
  by (simp add: list_records_def getConfigs_def initConfigs_def load_objects_map
      split: option.splits)

lemma initConfigs_distinct: "distinct (configs (initConfigs s))"
  by (simp add: initConfigs_def split: option.splits)

lemma autoStart_body_heap:
  "heap (autoStart_body env s a) =
     (if autoStart (heap s a) \<and> \<not> isRunning (heap s a)
         \<and> toml_write_error env (id' (heap s a)) (config (heap s a)) = None
      then (heap s)(a := (heap s a)\<lparr>isRunning := True\<rparr>) else heap s)"
  by (simp add: autoStart_body_def startFrp_def notifyStatusChange_def notifyError_def Let_def
      split: option.splits)

lemma autoStart_body_sent:
  "sent (autoStart_body env s a) = sent s @
     (if autoStart (heap s a) \<and> \<not> isRunning (heap s a) then
        (case toml_write_error env (id' (heap s a)) (config (heap s a)) of
           None \<Rightarrow> [StatusChanged ((heap s a)\<lparr>isRunning := True\<rparr>)]
         | Some msg \<Rightarrow> [FrpError (id' (heap s a)) (auto_start_failed_prefix @ msg)])
      else [])"
  by (simp add: autoStart_body_def startFrp_def notifyStatusChange_def notifyError_def Let_def
      split: option.splits)

lemma autoStart_body_next_pid:
  "next_pid (autoStart_body env s a) = next_pid s +
     (if autoStart (heap s a) \<and> \<not> isRunning (heap s a)
         \<and> toml_write_error env (id' (heap s a)) (config (heap s a)) = None
      then 1 else 0)"
  by (simp add: autoStart_body_def startFrp_def notifyStatusChange_def notifyError_def Let_def
      split: option.splits)

lemma autoStart_body_other: "b \<noteq> a \<Longrightarrow> heap (autoStart_body env s a) b = heap s b"
  by (simp add: autoStart_body_heap)

lemma autoStart_loop_other: "b \<notin> set as \<Longrightarrow> heap (autoStart_loop env as s) b = heap s b"
  by (induction as arbitrary: s) (auto simp: autoStart_body_other)

lemma autoStart_loop_configs: "configs (autoStart_loop env as s) = configs s"
proof (induction as arbitrary: s)
  case Nil
  show ?case by simp
next
  case (Cons a as)
  have "configs (autoStart_body env s a) = configs s"
    by (simp add: autoStart_body_def startFrp_def notifyStatusChange_def notifyError_def Let_def
      split: option.splits)
  with Cons.IH show ?case by simp
qed

lemma autoStart_loop_heap:
  assumes "distinct as"
  shows "map (heap (autoStart_loop env as s)) as =
     map (\<lambda>a. if autoStart (heap s a) \<and> \<not> isRunning (heap s a)
                  \<and> toml_write_error env (id' (heap s a)) (config (heap s a)) = None
               then (heap s a)\<lparr>isRunning := True\<rparr> else heap s a) as"
  using assms
proof (induction as arbitrary: s)
  case Nil
  show ?case by simp
next
  case (Cons a as)
  let ?s1 = "autoStart_body env s a"
  from Cons.prems have a: "a \<notin> set as" and d: "distinct as" by simp_all
  have rest: "heap ?s1 b = heap s b" if "b \<in> set as" for b
  proof -
    from that a have "b \<noteq> a" by auto
    then show ?thesis by (rule autoStart_body_other)
  qed
  have head: "heap (autoStart_loop env as ?s1) a = heap ?s1 a"
    by (rule autoStart_loop_other [OF a])
  have "map (heap (autoStart_loop env as ?s1)) as =
     map (\<lambda>a. if autoStart (heap ?s1 a) \<and> \<not> isRunning (heap ?s1 a)
                  \<and> toml_write_error env (id' (heap ?s1 a)) (config (heap ?s1 a)) = None
               then (heap ?s1 a)\<lparr>isRunning := True\<rparr> else heap ?s1 a) as"
    by (rule Cons.IH [OF d])
  also have "\<dots> = map (\<lambda>a. if autoStart (heap s a) \<and> \<not> isRunning (heap s a)
                  \<and> toml_write_error env (id' (heap s a)) (config (heap s a)) = None
               then (heap s a)\<lparr>isRunning := True\<rparr> else heap s a) as"
    by (rule map_cong [OF refl]) (simp add: rest)
  finally show ?case
    by (simp add: head autoStart_body_heap)
qed

lemma autoStart_loop_sent:
  assumes "distinct as"
  shows "sent (autoStart_loop env as s) = sent s @ concat (map (\<lambda>a.
      if autoStart (heap s a) \<and> \<not> isRunning (heap s a) then
        (case toml_write_error env (id' (heap s a)) (config (heap s a)) of
           None \<Rightarrow> [StatusChanged ((heap s a)\<lparr>isRunning := True\<rparr>)]
         | Some msg \<Rightarrow> [FrpError (id' (heap s a)) (auto_start_failed_prefix @ msg)])
      else []) as)"
  using assms
proof (induction as arbitrary: s)
  case Nil
  show ?case by simp
next
  case (Cons a as)
  let ?s1 = "autoStart_body env s a"
  let ?m = "\<lambda>h a. if autoStart (h a) \<and> \<not> isRunning (h a) then
        (case toml_write_error env (id' (h a)) (config (h a)) of
           None \<Rightarrow> [StatusChanged ((h a)\<lparr>isRunning := True\<rparr>)]
         | Some msg \<Rightarrow> [FrpError (id' (h a)) (auto_start_failed_prefix @ msg)])
      else []"
  from Cons.prems have a: "a \<notin> set as" and d: "distinct as" by simp_all
  have rest: "heap ?s1 b = heap s b" if "b \<in> set as" for b
  proof -
    from that a have "b \<noteq> a" by auto
    then show ?thesis by (rule autoStart_body_other)
  qed
  have "map (?m (heap ?s1)) as = map (?m (heap s)) as"
    by (rule map_cong [OF refl]) (simp add: rest split: option.splits)
  with Cons.IH [OF d, of ?s1] show ?case
    by (simp add: autoStart_body_sent)
qed

lemma autoStart_loop_next_pid:
  assumes "distinct as"
  shows "next_pid (autoStart_loop env as s) = next_pid s + length (filter (\<lambda>a.
      autoStart (heap s a) \<and> \<not> isRunning (heap s a)
      \<and> toml_write_error env (id' (heap s a)) (config (heap s a)) = None) as)"
  using assms
proof (induction as arbitrary: s)
  case Nil
  show ?case by simp
next
  case (Cons a as)
  let ?s1 = "autoStart_body env s a"
  let ?P = "\<lambda>h a. autoStart (h a) \<and> \<not> isRunning (h a)
      \<and> toml_write_error env (id' (h a)) (config (h a)) = None"
  from Cons.prems have a: "a \<notin> set as" and d: "distinct as" by simp_all
  have rest: "heap ?s1 b = heap s b" if "b \<in> set as" for b
  proof -
    from that a have "b \<noteq> a" by auto
    then show ?thesis by (rule autoStart_body_other)
  qed
  have "filter (?P (heap ?s1)) as = filter (?P (heap s)) as"
    by (rule filter_cong [OF refl]) (simp add: rest)
  with Cons.IH [OF d, of ?s1] show ?case
    by (simp add: autoStart_body_next_pid)
qed


lemma autoStart_body_processes:
  "dom (map_of (processes (autoStart_body env s a))) = dom (map_of (processes s)) \<union>
     (if autoStart (heap s a) \<and> \<not> isRunning (heap s a)
         \<and> toml_write_error env (id' (heap s a)) (config (heap s a)) = None
      then {id' (heap s a)} else {})"
  by (simp add: autoStart_body_def startFrp_def notifyStatusChange_def notifyError_def Let_def
      update_conv' split: option.splits)

lemma autoStart_loop_processes:
  assumes "distinct as"
  shows "dom (map_of (processes (autoStart_loop env as s))) = dom (map_of (processes s)) \<union>
     (\<lambda>a. id' (heap s a)) ` {a \<in> set as. autoStart (heap s a) \<and> \<not> isRunning (heap s a)
         \<and> toml_write_error env (id' (heap s a)) (config (heap s a)) = None}"
  using assms
proof (induction as arbitrary: s)
  case Nil
  show ?case by simp
next
  case (Cons a as)
  let ?s1 = "autoStart_body env s a"
  let ?P = "\<lambda>h a. autoStart (h a) \<and> \<not> isRunning (h a)
      \<and> toml_write_error env (id' (h a)) (config (h a)) = None"
  from Cons.prems have a: "a \<notin> set as" and d: "distinct as" by simp_all
  have rest: "heap ?s1 b = heap s b" if "b \<in> set as" for b
  proof -
    from that a have "b \<noteq> a" by auto
    then show ?thesis by (rule autoStart_body_other)
  qed
  have "(\<lambda>a. id' (heap ?s1 a)) ` {b \<in> set as. ?P (heap ?s1) b}
      = (\<lambda>a. id' (heap s a)) ` {b \<in> set as. ?P (heap s) b}"
    by (rule image_cong) (auto simp: rest)
  with Cons.IH [OF d, of ?s1] show ?case
    by (auto simp: autoStart_body_processes)
qed

text \<open>
  The loop on a registry as \<open>initConfigs\<close> loads it, read with the flag \<open>isRunning\<close>
  of each loaded record: a record with \<open>autoStart\<close> set and the flag not set is
  started. When the write of its \<open>.toml\<close> file succeeds a process is spawned and
  tracked under its id, the record is marked running and a status-changed message is
  sent; when \<open>startFrp\<close> throws, an error message for its id is sent, the record
  stays as it is, and the loop goes on with the next record. Every other record is
  left as it is and causes no message.
\<close>

lemma autoStart_after_cold_load:
  "list_records (startAutoStartConfigs env (initConfigs s0)) =
     map (\<lambda>c. if autoStart c \<and> \<not> isRunning c
                  \<and> toml_write_error env (id' c) (config c) = None
               then c\<lparr>isRunning := True\<rparr> else c) (list_records (initConfigs s0))
   \<and> sent (startAutoStartConfigs env (initConfigs s0)) = sent (initConfigs s0) @
       concat (map (\<lambda>c. if autoStart c \<and> \<not> isRunning c then
                   (case toml_write_error env (id' c) (config c) of
                      None \<Rightarrow> [StatusChanged (c\<lparr>isRunning := True\<rparr>)]
                    | Some msg \<Rightarrow> [FrpError (id' c) (auto_start_failed_prefix @ msg)])
                 else []) (list_records (initConfigs s0)))
   \<and> next_pid (startAutoStartConfigs env (initConfigs s0)) = next_pid (initConfigs s0) +
       length (filter (\<lambda>c. autoStart c \<and> \<not> isRunning c
                    \<and> toml_write_error env (id' c) (config c) = None)
                 (list_records (initConfigs s0)))
   \<and> dom (map_of (processes (startAutoStartConfigs env (initConfigs s0)))) =
       dom (map_of (processes (initConfigs s0))) \<union>
       id' ` {c \<in> set (list_records (initConfigs s0)). autoStart c \<and> \<not> isRunning c
                    \<and> toml_write_error env (id' c) (config c) = None}"
proof -
  let ?s = "initConfigs s0"
  let ?as = "configs ?s"
  let ?f = "\<lambda>c. if autoStart c \<and> \<not> isRunning c
                        \<and> toml_write_error env (id' c) (config c) = None
                     then c\<lparr>isRunning := True\<rparr> else c"
  let ?m = "\<lambda>c. if autoStart c \<and> \<not> isRunning c then
                       (case toml_write_error env (id' c) (config c) of
                          None \<Rightarrow> [StatusChanged (c\<lparr>isRunning := True\<rparr>)]
                        | Some msg \<Rightarrow> [FrpError (id' c) (auto_start_failed_prefix @ msg)])
                     else []"
  let ?P = "\<lambda>c. autoStart c \<and> \<not> isRunning c
                        \<and> toml_write_error env (id' c) (config c) = None"
  have d: "distinct ?as" by (rule initConfigs_distinct)
  have cs: "list_records ?s = map (heap ?s) ?as"
    by (simp add: list_records_def getConfigs_def)
  have "list_records (startAutoStartConfigs env ?s) = map (\<lambda>a. ?f (heap ?s a)) ?as"
    by (simp add: list_records_def getConfigs_def startAutoStartConfigs_def
        autoStart_loop_configs autoStart_loop_heap [OF d])
  also have "\<dots> = map ?f (map (heap ?s) ?as)"
    by (simp add: comp_def)
  finally have records: "list_records (startAutoStartConfigs env ?s) = map ?f (list_records ?s)"
    by (simp only: cs)
  have "sent (startAutoStartConfigs env ?s) = sent ?s @ concat (map (\<lambda>a. ?m (heap ?s a)) ?as)"
    by (simp add: startAutoStartConfigs_def autoStart_loop_sent [OF d])
  also have "map (\<lambda>a. ?m (heap ?s a)) ?as = map ?m (map (heap ?s) ?as)"
    by (simp add: comp_def)
  finally have messages:
    "sent (startAutoStartConfigs env ?s) = sent ?s @ concat (map ?m (list_records ?s))"
    by (simp only: cs)
  have "next_pid (startAutoStartConfigs env ?s)
      = next_pid ?s + length (filter (\<lambda>a. ?P (heap ?s a)) ?as)"
    by (simp add: startAutoStartConfigs_def autoStart_loop_next_pid [OF d])
  also have "length (filter (\<lambda>a. ?P (heap ?s a)) ?as) = length (filter ?P (map (heap ?s) ?as))"
    by (simp add: filter_map comp_def)
  finally have spawns: "next_pid (startAutoStartConfigs env ?s)
      = next_pid ?s + length (filter ?P (list_records ?s))"
    by (simp only: cs)
  have "dom (map_of (processes (startAutoStartConfigs env ?s)))
      = dom (map_of (processes ?s)) \<union> (\<lambda>a. id' (heap ?s a)) ` {a \<in> set ?as. ?P (heap ?s a)}"
    by (simp add: startAutoStartConfigs_def autoStart_loop_processes [OF d])
  also have "(\<lambda>a. id' (heap ?s a)) ` {a \<in> set ?as. ?P (heap ?s a)}
      = id' ` {c \<in> set (map (heap ?s) ?as). ?P c}"
    by auto
  finally have table: "dom (map_of (processes (startAutoStartConfigs env ?s)))
      = dom (map_of (processes ?s)) \<union> id' ` {c \<in> set (list_records ?s). ?P c}"
    by (simp only: cs)
  from records messages spawns table show ?thesis
    by (intro conjI)
qed

text \<open>
  On a file without a running mark: \<open>A\<close> is started and \<open>B\<close> is not; a start that
  fails for \<open>C\<close> does not keep \<open>A\<close> from being started.
\<close>

lemma autoStart_boot_scenarios:
  "list_records (initConfigs fresh_AB) = [cfgA, cfgB]
   \<and> list_records (startAutoStartConfigs calm_env (initConfigs fresh_AB))
       = [cfgA\<lparr>isRunning := True\<rparr>, cfgB]
   \<and> sent (startAutoStartConfigs calm_env (initConfigs fresh_AB))
       = [StatusChanged (cfgA\<lparr>isRunning := True\<rparr>)]
   \<and> list_records (initConfigs fresh_CAB) = [cfgC, cfgA, cfgB]
   \<and> list_records (startAutoStartConfigs (locked_env ''C'') (initConfigs fresh_CAB))
       = [cfgC, cfgA\<lparr>isRunning := True\<rparr>, cfgB]
   \<and> sent (startAutoStartConfigs (locked_env ''C'') (initConfigs fresh_CAB))
       = [FrpError ''C'' (auto_start_failed_prefix @ ''EACCES''),
          StatusChanged (cfgA\<lparr>isRunning := True\<rparr>)]
   \<and> next_pid (startAutoStartConfigs (locked_env ''C'') (initConfigs fresh_CAB)) = 1"
proof -
  have ab: "list_records (initConfigs fresh_AB) = [cfgA, cfgB]"
    by (simp add: initConfigs_records fresh_AB_def constructor_def)
  have cab: "list_records (initConfigs fresh_CAB) = [cfgC, cfgA, cfgB]"
    by (simp add: initConfigs_records fresh_CAB_def constructor_def)
  have start: "sent (initConfigs fresh_AB) = []" "sent (initConfigs fresh_CAB) = []"
    "next_pid (initConfigs fresh_CAB) = 0"
    by (simp_all add: initConfigs_def fresh_AB_def fresh_CAB_def constructor_def)
  have flags: "autoStart cfgA" "\<not> isRunning cfgA" "\<not> autoStart cfgB" "autoStart cfgC"
    "\<not> isRunning cfgC" "id' cfgA = ''A''" "id' cfgC = ''C''"
    by (simp_all add: cfgA_def cfgB_def cfgC_def)
  have writes: "toml_write_error calm_env = (\<lambda>i body. None)"
    "toml_write_error (locked_env ''C'') = (\<lambda>i body. if i = ''C'' then Some ''EACCES'' else None)"
    by (simp_all add: calm_env_def locked_env_def)
  note calm = autoStart_after_cold_load [of calm_env fresh_AB, unfolded ab start]
  note locked = autoStart_after_cold_load [of "locked_env ''C''" fresh_CAB, unfolded cab start]
  show ?thesis
    using calm locked by (simp add: ab cab flags writes)
qed


lemma booted_AB_fields:
  "fst (init calm_env fresh_AB) = Inr ()"
  "configs booted_AB = [0, Suc 0]"
  "heap booted_AB 0 = cfgA\<lparr>isRunning := True\<rparr>"
  "heap booted_AB (Suc 0) = cfgB"
  "processes booted_AB = [(''A'', 0)]"
  by (simp_all add: booted_AB_def init_def startAutoStartConfigs_def initConfigs_def
      autoStart_body_def startFrp_def notifyStatusChange_def fresh_AB_def constructor_def
      calm_env_def cfgA_def cfgB_def Let_def upt_rec)

lemma resaved_AB_fields:
  "fst (saveConfig calm_env booted_AB 1) = Inr ()"
  "persisted resaved_AB = Some [cfgA\<lparr>isRunning := True\<rparr>, cfgB\<lparr>parsedConfig := Some 5\<rparr>]"
  by (simp_all add: resaved_AB_def saveConfig_def booted_AB_fields calm_env_def toy_parse_def
      cfgA_def cfgB_def as_written_def Let_def)

text \<open>
  Claim C9, at the input where the code departs from it. The file holds \<open>A\<close>, marked
  for start-up, and \<open>B\<close>. The first boot starts \<open>A\<close> and marks the object running; a
  save of \<open>B\<close> then writes \<open>A\<close> with the mark. The next boot of a new manager loads
  \<open>A\<close> with \<open>isRunning = true\<close> and, since the loop tests this flag, does not start
  it: no process is spawned or tracked and no message is sent, while \<open>A\<close> is marked
  for start-up and listed as running.
\<close>

theorem stale_mark_skips_auto_start:
  "fst (init calm_env fresh_AB) = Inr ()
   \<and> list_records booted_AB = [cfgA\<lparr>isRunning := True\<rparr>, cfgB]
   \<and> processes booted_AB = [(''A'', 0)]
   \<and> fst (saveConfig calm_env booted_AB 1) = Inr ()
   \<and> persisted resaved_AB = Some [cfgA\<lparr>isRunning := True\<rparr>, cfgB\<lparr>parsedConfig := Some 5\<rparr>]
   \<and> fst (init calm_env (constructor ''arm64'' ''/app'' (persisted resaved_AB))) = Inr ()
   \<and> list_records rebooted_AB = [cfgA\<lparr>isRunning := True\<rparr>, cfgB\<lparr>parsedConfig := Some 5\<rparr>]
   \<and> autoStart (cfgA\<lparr>isRunning := True\<rparr>)
   \<and> processes rebooted_AB = []
   \<and> next_pid rebooted_AB = 0
   \<and> sent rebooted_AB = []"
proof -
  have r1: "list_records booted_AB = [cfgA\<lparr>isRunning := True\<rparr>, cfgB]"
    by (simp add: list_records_def getConfigs_def booted_AB_fields)
  have ok3: "fst (init calm_env (constructor ''arm64'' ''/app'' (persisted resaved_AB))) = Inr ()"
    by (simp add: init_def calm_env_def)
  have r3: "list_records rebooted_AB = [cfgA\<lparr>isRunning := True\<rparr>, cfgB\<lparr>parsedConfig := Some 5\<rparr>]"
    "processes rebooted_AB = []" "next_pid rebooted_AB = 0" "sent rebooted_AB = []"
    unfolding rebooted_AB_def resaved_AB_fields
    by (simp_all add: list_records_def getConfigs_def init_def startAutoStartConfigs_def
      initConfigs_def autoStart_body_def constructor_def calm_env_def cfgA_def cfgB_def upt_rec)
  have a: "autoStart (cfgA\<lparr>isRunning := True\<rparr>)"
    by (simp add: cfgA_def)
  from booted_AB_fields(1) r1 booted_AB_fields(5) resaved_AB_fields ok3 r3(1) a r3(2,3,4)
  show ?thesis
    by (intro conjI)
qed


section \<open>A second start of a running configuration\<close>

lemma startFrp_write_ok:
  assumes "toml_write_error env (id' (heap s a)) (config (heap s a)) = None"
  shows "fst (startFrp env s a) = Inr ()"
    and "next_pid (snd (startFrp env s a)) = Suc (next_pid s)"
    and "processes (snd (startFrp env s a)) = AList.update (id' (heap s a)) (next_pid s) (processes s)"
    and "spawned (snd (startFrp env s a)) = (spawned s)(next_pid s \<mapsto> a)"
    and "killed (snd (startFrp env s a)) = killed s"
    and "heap (snd (startFrp env s a)) = (heap s)(a := (heap s a)\<lparr>isRunning := True\<rparr>)"
    and "sent (snd (startFrp env s a)) = sent s @ [StatusChanged ((heap s a)\<lparr>isRunning := True\<rparr>)]"
    and "pending (snd (startFrp env s a)) = pending s @
           (case spawn_error env (id' (heap s a)) of
              None \<Rightarrow> []
            | Some (msg, errno) \<Rightarrow>
                [(next_pid s, ProcError msg), (next_pid s, Close (Some errno))])"
    and "configs (snd (startFrp env s a)) = configs s"
  using assms by (simp_all add: startFrp_def notifyStatusChange_def Let_def)





section \<open>Exit of a process\<close>

lemma on_close_nonzero:
  assumes "n \<noteq> 0"
  shows "sent (on_close s a (Some n)) = sent s @
           [StatusChanged ((heap s a)\<lparr>isRunning := False\<rparr>),
            FrpError (name (heap s a)) (exit_code_prefix @ decimal_int n)]"
    and "processes (on_close s a (Some n)) = AList.delete (id' (heap s a)) (processes s)"
    and "heap (on_close s a (Some n)) = (heap s)(a := (heap s a)\<lparr>isRunning := False\<rparr>)"
  using assms by (simp_all add: on_close_def notifyStatusChange_def notifyError_def Let_def)

text \<open>
  Claim C5, at the input where the code departs from it. The process 0 of the
  configuration with id \<open>A\<close> and name \<open>alpha\<close> closes with exit code 1. The listener
  removes the table entry, sends status-changed with \<open>isRunning = false\<close> and then the
  error message with the exit code, in this order; the error message carries the
  name \<open>alpha\<close> where the configuration id \<open>A\<close> belongs.
\<close>

theorem close_error_tagged_with_name:
  "spawned running_A 0 = Some 0
   \<and> id' (heap running_A 0) = ''A''
   \<and> name (heap running_A 0) = ''alpha''
   \<and> sent (handle running_A 0 (Close (Some 1))) = sent running_A @
       [StatusChanged (cfgA\<lparr>parsedConfig := Some 5, isRunning := False\<rparr>),
        FrpError ''alpha'' (exit_code_prefix @ ''1'')]
   \<and> processes (handle running_A 0 (Close (Some 1))) = []"
proof -
  have sp: "spawned running_A 0 = Some 0"
    by (simp add: running_A_def saved_A_def startFrp_def saveConfig_def with_objects_def
      constructor_def calm_env_def toy_parse_def cfgA_def cfgB_def notifyStatusChange_def Let_def)
  have one: "decimal_int 1 = ''1''"
    by (simp add: decimal_int_def)
  show ?thesis
    using on_close_nonzero [of 1 running_A 0]
    by (simp add: handle_def sp one running_A_fields cfgA_def)
qed

section \<open>A process that cannot be launched\<close>

lemma on_error_effect:
  "sent (on_error s a msg) = sent s @
     [StatusChanged ((heap s a)\<lparr>isRunning := False\<rparr>), FrpError (id' (heap s a)) msg]"
  "processes (on_error s a msg) = AList.delete (id' (heap s a)) (processes s)"
  "heap (on_error s a msg) = (heap s)(a := (heap s a)\<lparr>isRunning := False\<rparr>)"
  "pending (on_error s a msg) = pending s"
  "spawned (on_error s a msg) = spawned s"
  by (simp_all add: on_error_def notifyStatusChange_def notifyError_def Let_def)

lemma on_close_pending: "pending (on_close s a code) = pending s"
  by (simp add: on_close_def notifyStatusChange_def notifyError_def Let_def split: option.splits)

text \<open>
  With a binary that cannot be launched, \<open>startFrp\<close> still returns without error,
  and right after the call the process is in the table and the configuration is
  marked running.
\<close>

theorem spawn_failure_start_succeeds:
  "spawn_error no_binary_env (id' (heap saved_A 0)) = Some (''spawn frpc ENOENT'', - 2)
   \<and> fst (startFrp no_binary_env saved_A 0) = Inr ()
   \<and> processes (snd (startFrp no_binary_env saved_A 0)) = [(''A'', 0)]
   \<and> isRunning (heap (snd (startFrp no_binary_env saved_A 0)) 0)"
  by (simp add: saved_A_def startFrp_def saveConfig_def with_objects_def
      constructor_def calm_env_def no_binary_env_def toy_parse_def cfgA_def cfgB_def
      notifyStatusChange_def Let_def)

text \<open>
  Claim C6, as the code has it. When the \<open>.toml\<close> file is written and the launch of
  the process fails, \<open>startFrp\<close> returns without error: it has put the process in
  the table, marked the configuration running and sent status-changed. The failure
  arrives after the call, as two events of the process. First \<open>'error'\<close>: its listener
  removes the table entry of the id, marks the configuration stopped, sends
  status-changed and then an error message for the configuration id with the message
  of the failure. Then \<open>'close'\<close>, with the negative error number as exit code: its
  listener finds the id without entry and the configuration stopped, leaves them so,
  and sends status-changed once more and one more error message, which carries the
  exit code.
\<close>

theorem spawn_failure_reported_by_events:
  assumes w: "toml_write_error env (id' (heap s a)) (config (heap s a)) = None"
    and sp: "spawn_error env (id' (heap s a)) = Some (msg, errno)"
    and neg: "errno < 0"
    and quiet: "pending s = []"
  shows "fst (startFrp env s a) = Inr ()
       \<and> map_of (processes (snd (startFrp env s a))) (id' (heap s a)) = Some (next_pid s)
       \<and> heap (snd (startFrp env s a)) a = (heap s a)\<lparr>isRunning := True\<rparr>
       \<and> sent (snd (startFrp env s a)) = sent s @ [StatusChanged ((heap s a)\<lparr>isRunning := True\<rparr>)]
       \<and> pending (snd (startFrp env s a))
           = [(next_pid s, ProcError msg), (next_pid s, Close (Some errno))]
       \<and> map_of (processes (deliver_pending (snd (startFrp env s a)))) (id' (heap s a)) = None
       \<and> heap (deliver_pending (snd (startFrp env s a))) a = (heap s a)\<lparr>isRunning := False\<rparr>
       \<and> sent (deliver_pending (snd (startFrp env s a))) = sent s @
           [StatusChanged ((heap s a)\<lparr>isRunning := True\<rparr>),
            StatusChanged ((heap s a)\<lparr>isRunning := False\<rparr>),
            FrpError (id' (heap s a)) msg]
       \<and> pending (deliver_pending (snd (startFrp env s a))) = [(next_pid s, Close (Some errno))]
       \<and> map_of (processes (deliver_pending (deliver_pending (snd (startFrp env s a)))))
           (id' (heap s a)) = None
       \<and> heap (deliver_pending (deliver_pending (snd (startFrp env s a)))) a
           = (heap s a)\<lparr>isRunning := False\<rparr>
       \<and> (\<exists>tag. sent (deliver_pending (deliver_pending (snd (startFrp env s a)))) = sent s @
           [StatusChanged ((heap s a)\<lparr>isRunning := True\<rparr>),
            StatusChanged ((heap s a)\<lparr>isRunning := False\<rparr>),
            FrpError (id' (heap s a)) msg,
            StatusChanged ((heap s a)\<lparr>isRunning := False\<rparr>),
            FrpError tag (exit_code_prefix @ decimal_int errno)])
       \<and> pending (deliver_pending (deliver_pending (snd (startFrp env s a)))) = []"
proof -
  let ?s1 = "snd (startFrp env s a)"
  let ?s2 = "deliver_pending ?s1"
  let ?s3 = "deliver_pending ?s2"
  note ok = startFrp_write_ok [OF w]
  have p1: "pending ?s1 = [(next_pid s, ProcError msg), (next_pid s, Close (Some errno))]"
    by (simp add: ok(8) sp quiet)
  have d2: "?s2 = on_error (?s1\<lparr>pending := [(next_pid s, Close (Some errno))]\<rparr>) a msg"
    by (simp add: deliver_pending_def p1 handle_def ok(4))
  have p2: "pending ?s2 = [(next_pid s, Close (Some errno))]"
    by (simp add: d2 on_error_effect)
  have sp2: "spawned ?s2 (next_pid s) = Some a"
    by (simp add: d2 on_error_effect ok(4))
  have h2: "heap ?s2 = (heap s)(a := (heap s a)\<lparr>isRunning := False\<rparr>)"
    by (simp add: d2 on_error_effect ok(6))
  have t2: "processes ?s2 = AList.delete (id' (heap s a))
      (AList.update (id' (heap s a)) (next_pid s) (processes s))"
    by (simp add: d2 on_error_effect ok(3,6))
  have m2: "sent ?s2 = sent s @
           [StatusChanged ((heap s a)\<lparr>isRunning := True\<rparr>),
            StatusChanged ((heap s a)\<lparr>isRunning := False\<rparr>),
            FrpError (id' (heap s a)) msg]"
    by (simp add: d2 on_error_effect ok(6,7))
  have d3: "?s3 = on_close (?s2\<lparr>pending := []\<rparr>) a (Some errno)"
    by (simp add: deliver_pending_def [of ?s2] p2 handle_def sp2)
  have nz: "errno \<noteq> 0" using neg by simp
  have m3: "sent ?s3 = sent ?s2 @
           [StatusChanged ((heap s a)\<lparr>isRunning := False\<rparr>),
            FrpError (name (heap s a)) (exit_code_prefix @ decimal_int errno)]"
    unfolding d3 using on_close_nonzero(1) [OF nz, of "?s2\<lparr>pending := []\<rparr>" a]
    by (simp add: h2)
  have t3: "processes ?s3 = AList.delete (id' (heap s a)) (processes ?s2)"
    unfolding d3 using on_close_nonzero(2) [OF nz, of "?s2\<lparr>pending := []\<rparr>" a]
    by (simp add: h2)
  have h3: "heap ?s3 a = (heap s a)\<lparr>isRunning := False\<rparr>"
    unfolding d3 using on_close_nonzero(3) [OF nz, of "?s2\<lparr>pending := []\<rparr>" a]
    by (simp add: h2)
  have p3: "pending ?s3 = []"
    unfolding d3 by (simp add: on_close_pending)
  have last: "\<exists>tag. sent ?s3 = sent s @
           [StatusChanged ((heap s a)\<lparr>isRunning := True\<rparr>),
            StatusChanged ((heap s a)\<lparr>isRunning := False\<rparr>),
            FrpError (id' (heap s a)) msg,
            StatusChanged ((heap s a)\<lparr>isRunning := False\<rparr>),
            FrpError tag (exit_code_prefix @ decimal_int errno)]"
    by (simp add: m3 m2)
  have a1: "map_of (processes ?s1) (id' (heap s a)) = Some (next_pid s)"
    by (simp add: ok(3) update_conv')
  have a2: "heap ?s1 a = (heap s a)\<lparr>isRunning := True\<rparr>"
    by (simp add: ok(6))
  have b1: "map_of (processes ?s2) (id' (heap s a)) = None"
    by (simp add: t2 delete_conv')
  have b2: "heap ?s2 a = (heap s a)\<lparr>isRunning := False\<rparr>"
    by (simp add: h2)
  have c1: "map_of (processes ?s3) (id' (heap s a)) = None"
    by (simp add: t3 delete_conv')
  from ok(1) a1 a2 ok(7) p1 b1 b2 m2 p2 c1 h3 last p3 show ?thesis
    by (intro conjI)
qed

theorem spawn_failure_reported_by_events_witness:
  "fst (startFrp no_binary_env saved_A 0) = Inr ()
   \<and> pending (snd (startFrp no_binary_env saved_A 0))
       = [(0, ProcError ''spawn frpc ENOENT''), (0, Close (Some (- 2)))]
   \<and> map_of (processes (deliver_pending (snd (startFrp no_binary_env saved_A 0)))) ''A'' = None
   \<and> sent (deliver_pending (snd (startFrp no_binary_env saved_A 0))) =
       [StatusChanged (cfgA\<lparr>parsedConfig := Some 5, isRunning := True\<rparr>),
        StatusChanged (cfgA\<lparr>parsedConfig := Some 5, isRunning := False\<rparr>),
        FrpError ''A'' ''spawn frpc ENOENT'']
   \<and> length (sent (deliver_pending (deliver_pending (snd (startFrp no_binary_env saved_A 0))))) = 5
   \<and> pending (deliver_pending (deliver_pending (snd (startFrp no_binary_env saved_A 0)))) = []"
proof -
  have fields: "heap saved_A 0 = cfgA\<lparr>parsedConfig := Some 5\<rparr>" "pending saved_A = []"
    "sent saved_A = []" "next_pid saved_A = 0"
    by (simp_all add: saved_A_def saveConfig_def with_objects_def constructor_def calm_env_def
        toy_parse_def cfgA_def cfgB_def Let_def)
  have w: "toml_write_error no_binary_env (id' (heap saved_A 0)) (config (heap saved_A 0)) = None"
    by (simp add: no_binary_env_def calm_env_def)
  have sp: "spawn_error no_binary_env (id' (heap saved_A 0)) = Some (''spawn frpc ENOENT'', - 2)"
    by (simp add: no_binary_env_def calm_env_def)
  have neg: "(- 2 :: int) < 0" by simp
  note inst = spawn_failure_reported_by_events [OF w sp neg fields(2)]
  from inst obtain tag where five:
    "sent (deliver_pending (deliver_pending (snd (startFrp no_binary_env saved_A 0)))) = sent saved_A @
           [StatusChanged ((heap saved_A 0)\<lparr>isRunning := True\<rparr>),
            StatusChanged ((heap saved_A 0)\<lparr>isRunning := False\<rparr>),
            FrpError (id' (heap saved_A 0)) ''spawn frpc ENOENT'',
            StatusChanged ((heap saved_A 0)\<lparr>isRunning := False\<rparr>),
            FrpError tag (exit_code_prefix @ decimal_int (- 2))]"
    by blast
  have len: "length (sent (deliver_pending (deliver_pending (snd (startFrp no_binary_env saved_A 0))))) = 5"
    by (simp add: five fields)
  from inst len show ?thesis
    by (simp add: fields cfgA_def)
qed


section \<open>A write that fails\<close>

lemma saveConfig_outcome:
  assumes "TOML_parse env (config (heap s a)) = Inr p"
  shows "(persist_error env (list_records (snd (saveConfig env s a))) = None
          \<and> fst (saveConfig env s a) = Inr ()
          \<and> persisted (snd (saveConfig env s a))
              = Some (map (as_written env) (list_records (snd (saveConfig env s a)))))
       \<or> (\<exists>msg. persist_error env (list_records (snd (saveConfig env s a))) = Some msg
          \<and> fst (saveConfig env s a) = Inl (Error (invalid_toml_prefix @ msg))
          \<and> persisted (snd (saveConfig env s a)) = persisted s)"
proof -
  define h where "h = (heap s)(a := (heap s a)\<lparr>parsedConfig := Some p\<rparr>)"
  define cs where "cs = (case findIndex (\<lambda>c. id' (h c) = id' (h a)) (configs s) of
                  Some index \<Rightarrow> (configs s)[index := a]
                | None \<Rightarrow> configs s @ [a])"
  have unfolded: "saveConfig env s a =
     (case persist_error env (map h cs) of
        Some msg \<Rightarrow> (Inl (Error (invalid_toml_prefix @ msg)), s\<lparr>heap := h, configs := cs\<rparr>)
      | None \<Rightarrow>
          (Inr (), s\<lparr>heap := h, configs := cs,
                     persisted := Some (map (as_written env) (map h cs))\<rparr>))"
    using assms unfolding h_def cs_def by (simp only: saveConfig_def sum.case Let_def)
  show ?thesis
  proof (cases "persist_error env (map h cs)")
    case None
    then show ?thesis
      by (simp add: unfolded list_records_def getConfigs_def)
  next
    case (Some msg)
    then show ?thesis
      by (simp add: unfolded list_records_def getConfigs_def)
  qed
qed

lemma saveConfig_write:
  assumes "TOML_parse env (config (heap s a)) = Inr p"
  shows "persist_error env (list_records (snd (saveConfig env s a))) = None \<Longrightarrow>
           fst (saveConfig env s a) = Inr ()
         \<and> persisted (snd (saveConfig env s a))
             = Some (map (as_written env) (list_records (snd (saveConfig env s a))))"
    and "persist_error env (list_records (snd (saveConfig env s a))) = Some msg \<Longrightarrow>
           fst (saveConfig env s a) = Inl (Error (invalid_toml_prefix @ msg))
         \<and> persisted (snd (saveConfig env s a)) = persisted s"
  using saveConfig_outcome [OF assms] by auto

lemma deleteConfig_outcome:
  assumes "getConfig s i = Some a"
  shows "(persist_error env (list_records (snd (deleteConfig env s i))) = None
          \<and> fst (deleteConfig env s i) = Inr ()
          \<and> persisted (snd (deleteConfig env s i))
              = Some (map (as_written env) (list_records (snd (deleteConfig env s i)))))
       \<or> (\<exists>msg. persist_error env (list_records (snd (deleteConfig env s i))) = Some msg
          \<and> fst (deleteConfig env s i) = Inl (Error msg)
          \<and> persisted (snd (deleteConfig env s i)) = persisted (stopFrp s a))"
proof -
  define s1 where "s1 = stopFrp s a"
  define cs where "cs = filter (\<lambda>c. id' (heap s1 c) \<noteq> i) (configs s1)"
  have unfolded: "deleteConfig env s i =
     (case persist_error env (map (heap s1) cs) of
        Some msg \<Rightarrow> (Inl (Error msg), s1\<lparr>configs := cs\<rparr>)
      | None \<Rightarrow>
          (Inr (), s1\<lparr>configs := cs,
                      persisted := Some (map (as_written env) (map (heap s1) cs))\<rparr>))"
    using assms unfolding s1_def cs_def
    by (simp add: deleteConfig_def Let_def cong: option.case_cong)
  show ?thesis
  proof (cases "persist_error env (map (heap s1) cs)")
    case None
    then show ?thesis
      by (simp add: unfolded list_records_def getConfigs_def s1_def [symmetric])
  next
    case (Some msg)
    then show ?thesis
      by (simp add: unfolded list_records_def getConfigs_def s1_def [symmetric])
  qed
qed

lemma stopFrp_persisted: "persisted (stopFrp s a) = persisted s"
  by (simp add: stopFrp_def notifyStatusChange_def split: option.splits)

lemma deleteConfig_write:
  assumes "getConfig s i = Some a"
  shows "persist_error env (list_records (snd (deleteConfig env s i))) = None \<Longrightarrow>
           fst (deleteConfig env s i) = Inr ()
         \<and> persisted (snd (deleteConfig env s i))
             = Some (map (as_written env) (list_records (snd (deleteConfig env s i))))"
    and "persist_error env (list_records (snd (deleteConfig env s i))) = Some msg \<Longrightarrow>
           fst (deleteConfig env s i) = Inl (Error msg)
         \<and> persisted (snd (deleteConfig env s i)) = persisted s"
  using deleteConfig_outcome [OF assms, of env] by (auto simp: stopFrp_persisted)

text \<open>
  On a full disk, \<open>saveConfig\<close> throws and has added the record to the empty
  registry all the same; \<open>deleteConfig\<close> throws and has removed the record.
\<close>

theorem failed_write_changes_registry:
  "fst (saveConfig disk_full_env (with_objects [cfgA, cfgB]) 0)
     = Inl (Error (invalid_toml_prefix @ ''ENOSPC''))
   \<and> configs (with_objects [cfgA, cfgB]) = []
   \<and> configs (snd (saveConfig disk_full_env (with_objects [cfgA, cfgB]) 0)) = [0]
   \<and> fst (deleteConfig disk_full_env saved_A ''A'') = Inl (Error ''ENOSPC'')
   \<and> configs saved_A = [0]
   \<and> configs (snd (deleteConfig disk_full_env saved_A ''A'')) = []"
  by (simp add: saved_A_def deleteConfig_def getConfig_def stopFrp_def saveConfig_def
      with_objects_def constructor_def calm_env_def disk_full_env_def toy_parse_def
      cfgA_def cfgB_def notifyStatusChange_def Let_def)

text \<open>
  Claim C4, as the code has it. When the write of \<open>configs.json\<close> fails, the caller
  gets the error: from \<open>saveConfig\<close> with the invalid-TOML prefix before the message
  of the write error, from \<open>deleteConfig\<close> as it is. The registry in memory is
  not put back: after \<open>saveConfig\<close> the lookup of the id
  returns the saved object, with its parsed body; after \<open>deleteConfig\<close> no record
  with the id is left.
\<close>

theorem persistence_failure_surfaced:
  "(TOML_parse env (config (heap s a)) = Inr p
      \<and> persist_error env (list_records (snd (saveConfig env s a))) = Some msg \<longrightarrow>
        fst (saveConfig env s a) = Inl (Error (invalid_toml_prefix @ msg))
      \<and> getConfig (snd (saveConfig env s a)) (id' (heap s a)) = Some a
      \<and> heap (snd (saveConfig env s a)) a = (heap s a)\<lparr>parsedConfig := Some p\<rparr>)
   \<and> (getConfig s i = Some b
      \<and> persist_error env (list_records (snd (deleteConfig env s i))) = Some msg \<longrightarrow>
        fst (deleteConfig env s i) = Inl (Error msg)
      \<and> getConfig (snd (deleteConfig env s i)) i = None
      \<and> configs (snd (deleteConfig env s i)) = filter (\<lambda>c. id' (heap s c) \<noteq> i) (configs s))"
proof (intro conjI impI)
  assume h: "TOML_parse env (config (heap s a)) = Inr p
      \<and> persist_error env (list_records (snd (saveConfig env s a))) = Some msg"
  then have parse: "TOML_parse env (config (heap s a)) = Inr p"
    and fail: "persist_error env (list_records (snd (saveConfig env s a))) = Some msg"
    by simp_all
  from saveConfig_write(2) [OF parse fail]
  show "fst (saveConfig env s a) = Inl (Error (invalid_toml_prefix @ msg))"
    by simp
  show "getConfig (snd (saveConfig env s a)) (id' (heap s a)) = Some a"
    by (rule saveConfig_getConfig [OF parse])
  show "heap (snd (saveConfig env s a)) a = (heap s a)\<lparr>parsedConfig := Some p\<rparr>"
    by (simp add: saveConfig_valid(1) [OF parse])
next
  assume h: "getConfig s i = Some b
      \<and> persist_error env (list_records (snd (deleteConfig env s i))) = Some msg"
  then have g: "getConfig s i = Some b"
    and fail: "persist_error env (list_records (snd (deleteConfig env s i))) = Some msg"
    by simp_all
  from deleteConfig_write(2) [OF g fail]
  show "fst (deleteConfig env s i) = Inl (Error msg)"
    by simp
  have same: "(\<lambda>c. id' (heap (stopFrp s b) c) = i) = (\<lambda>c. id' (heap s c) = i)"
    by (rule ext) (simp add: stopFrp_ids)
  show "getConfig (snd (deleteConfig env s i)) i = None"
    by (simp add: getConfig_def deleteConfig_present(1,2) [OF g] same find_filter_out)
  show "configs (snd (deleteConfig env s i)) = filter (\<lambda>c. id' (heap s c) \<noteq> i) (configs s)"
    by (rule deleteConfig_present(1) [OF g])
qed

theorem persistence_failure_surfaced_witness:
  "fst (saveConfig disk_full_env (with_objects [cfgA, cfgB]) 0)
     = Inl (Error (invalid_toml_prefix @ ''ENOSPC''))
   \<and> getConfig (snd (saveConfig disk_full_env (with_objects [cfgA, cfgB]) 0)) ''A'' = Some 0
   \<and> fst (deleteConfig disk_full_env saved_A ''A'') = Inl (Error ''ENOSPC'')
   \<and> getConfig (snd (deleteConfig disk_full_env saved_A ''A'')) ''A'' = None"
proof -
  have full: "persist_error disk_full_env = (\<lambda>records. Some ''ENOSPC'')"
    by (simp add: disk_full_env_def)
  have parse: "TOML_parse disk_full_env (config (heap (with_objects [cfgA, cfgB]) 0)) = Inr 5"
    by (simp add: disk_full_env_def calm_env_def with_objects_def cfgA_def toy_parse_def)
  have before: "persisted (with_objects [cfgA, cfgB]) = None"
    "id' (heap (with_objects [cfgA, cfgB]) 0) = ''A''"
    by (simp_all add: with_objects_def constructor_def cfgA_def)
  have saved: "getConfig saved_A ''A'' = Some 0"
    by (simp add: saved_A_def getConfig_def saveConfig_def with_objects_def constructor_def
        calm_env_def toy_parse_def cfgA_def cfgB_def Let_def)
  from persistence_failure_surfaced
    [of disk_full_env "with_objects [cfgA, cfgB]" 0 5 "''ENOSPC''" "''Z''" 0]
    persistence_failure_surfaced
    [of disk_full_env saved_A 0 5 "''ENOSPC''" "''A''" 0]
  show ?thesis
    by (simp add: full parse before saved)
qed


section \<open>What the file holds\<close>

lemma cold_load_records:
  "list_records (initConfigs (constructor os_arch base d)) =
     (case d of None \<Rightarrow> [] | Some records \<Rightarrow> records)"
  by (simp add: initConfigs_records constructor_def)

text \<open>
  Claim C2, at the input where the code departs from it. The file receives the
  objects of the registry as they are, with \<open>isRunning\<close> and \<open>parsedConfig\<close>. After
  \<open>A\<close> has been saved and started, a save of \<open>B\<close> writes \<open>A\<close> with
  \<open>isRunning = true\<close>; a manager constructed on that file loads \<open>A\<close> as running, with
  an empty process table. A save of an object that arrives with \<open>isRunning = true\<close>
  writes the mark too.
\<close>

theorem running_mark_persisted:
  "fst (saveConfig calm_env running_A 1) = Inr ()
   \<and> persisted (snd (saveConfig calm_env running_A 1))
       = Some [cfgA\<lparr>parsedConfig := Some 5, isRunning := True\<rparr>, cfgB\<lparr>parsedConfig := Some 5\<rparr>]
   \<and> map isRunning (list_records (initConfigs (constructor ''arm64'' ''/app''
         (persisted (snd (saveConfig calm_env running_A 1)))))) = [True, False]
   \<and> processes (initConfigs (constructor ''arm64'' ''/app''
         (persisted (snd (saveConfig calm_env running_A 1))))) = []
   \<and> persisted (snd (saveConfig calm_env (with_objects [cfgA_running]) 0))
       = Some [cfgA_running\<lparr>parsedConfig := Some 5\<rparr>]
   \<and> isRunning (cfgA_running\<lparr>parsedConfig := Some 5\<rparr>)"
proof -
  have p: "persisted (snd (saveConfig calm_env running_A 1))
       = Some [cfgA\<lparr>parsedConfig := Some 5, isRunning := True\<rparr>, cfgB\<lparr>parsedConfig := Some 5\<rparr>]"
    and ok: "fst (saveConfig calm_env running_A 1) = Inr ()"
    by (simp_all add: running_A_def saved_A_def startFrp_def saveConfig_def with_objects_def
      constructor_def calm_env_def toy_parse_def cfgA_def cfgB_def notifyStatusChange_def
      as_written_def Let_def)
  have q: "persisted (snd (saveConfig calm_env (with_objects [cfgA_running]) 0))
       = Some [cfgA_running\<lparr>parsedConfig := Some 5\<rparr>]"
    by (simp add: saveConfig_def with_objects_def constructor_def calm_env_def toy_parse_def
        cfgA_running_def cfgA_def as_written_def Let_def)
  have cold: "map isRunning (list_records (initConfigs (constructor ''arm64'' ''/app''
         (persisted (snd (saveConfig calm_env running_A 1)))))) = [True, False]"
    unfolding p by (simp add: cold_load_records cfgA_def cfgB_def)
  have table: "processes (initConfigs (constructor ''arm64'' ''/app''
         (persisted (snd (saveConfig calm_env running_A 1))))) = []"
    unfolding p by (simp add: initConfigs_def constructor_def)
  have mark: "isRunning (cfgA_running\<lparr>parsedConfig := Some 5\<rparr>)"
    by (simp add: cfgA_running_def)
  from ok p cold table q mark show ?thesis
    by (intro conjI)
qed


end
